theory Spec2Isabelle
  imports Main "HOL-Library.Word"
begin

section \<open>Call stacks of package failure (callstack.go)\<close>

text \<open>
  The file \<^verbatim>\<open>callstack.go\<close> defines the frame type with its five accessors, the
  CallStack type with its formatter, and the two ways of building a CallStack:
  from the running goroutine (\<^verbatim>\<open>Callers\<close>) and from a stack trace of package
  \<^verbatim>\<open>github.com/pkg/errors\<close> (\<^verbatim>\<open>CallStackFromPkgErrors\<close>).

  Go strings are byte sequences: \<^typ>\<open>string\<close>. A run-time panic is a value of
  type \<open>panic\<close>, and a function that can panic returns \<open>panic + 'a\<close>. The
  panics are those of an index or a slice expression out of range, of a method
  call on a nil interface value, and of a method of another package.
\<close>

datatype panic = IndexOutOfRange | SliceBoundsOutOfRange | NilDereference | ForeignPanic

text \<open>\<^verbatim>\<open>xs[i]\<close> and \<^verbatim>\<open>xs[i:]\<close>, \<^verbatim>\<open>xs[:j]\<close> with Go's bounds checks.\<close>

definition index :: "'a list \<Rightarrow> int \<Rightarrow> panic + 'a" where
  "index xs i = (if 0 \<le> i \<and> i < int (length xs) then Inr (xs ! nat i) else Inl IndexOutOfRange)"

definition slice_from :: "'a list \<Rightarrow> int \<Rightarrow> panic + 'a list" where
  "slice_from xs i =
     (if 0 \<le> i \<and> i \<le> int (length xs) then Inr (drop (nat i) xs) else Inl SliceBoundsOutOfRange)"

definition slice_to :: "'a list \<Rightarrow> int \<Rightarrow> panic + 'a list" where
  "slice_to xs j =
     (if 0 \<le> j \<and> j \<le> int (length xs) then Inr (take (nat j) xs) else Inl SliceBoundsOutOfRange)"

subsection \<open>The library functions the accessors call\<close>

text \<open>
  \<^verbatim>\<open>strings.IndexByte\<close>: the index of the first byte equal to \<open>c\<close>, or \<open>-1\<close>.
\<close>

fun IndexByte :: "string \<Rightarrow> char \<Rightarrow> int" where
  "IndexByte [] c = - 1"
| "IndexByte (x # xs) c =
     (if x = c then 0 else (let m = IndexByte xs c in if m < 0 then - 1 else m + 1))"

text \<open>
  \<^verbatim>\<open>strings.LastIndexByte\<close>: the loop
  \<^verbatim>\<open>for i := len(s) - 1; i >= 0; i-- { if s[i] == c { return i } }; return -1\<close>.
  The counter of \<open>last_index_from\<close> is \<open>i + 1\<close>.
\<close>

fun last_index_from :: "string \<Rightarrow> char \<Rightarrow> nat \<Rightarrow> int" where
  "last_index_from s c 0 = - 1"
| "last_index_from s c (Suc i) = (if s ! i = c then int i else last_index_from s c i)"

definition LastIndexByte :: "string \<Rightarrow> char \<Rightarrow> int" where
  "LastIndexByte s c = last_index_from s c (length s)"

text \<open>
  \<^verbatim>\<open>strings.Split(s, sep)\<close> for a separator of one byte, the only use in this
  file (\<^verbatim>\<open>"."\<close>): cut at the first separator, keep the part before it, go on with
  the part after it; the rest is the last element.
\<close>

lemma IndexByte_nonneg_length: "0 \<le> IndexByte s c \<Longrightarrow> nat (IndexByte s c) < length s"
  by (induction s) (auto simp: Let_def split: if_splits)

function Split :: "string \<Rightarrow> char \<Rightarrow> string list" where
  "Split s sep =
     (let m = IndexByte s sep in
      if m < 0 then [s] else take (nat m) s # Split (drop (nat m + 1) s) sep)"
  by pat_completeness auto
termination
proof (relation "measure (\<lambda>(s, sep). length s)")
  show "wf (measure (\<lambda>(s, sep). length s))" by simp
next
  fix s :: string and sep :: char and m :: int
  assume "m = IndexByte s sep" and "\<not> m < 0"
  then have "nat m < length s"
    using IndexByte_nonneg_length [of s sep] by simp
  then show "((drop (nat m + 1) s, sep), (s, sep)) \<in> measure (\<lambda>(s, sep). length s)"
    by simp
qed

declare Split.simps [simp del]

text \<open>\<^verbatim>\<open>strings.Join(elems, sep)\<close>.\<close>

fun Join :: "string list \<Rightarrow> string \<Rightarrow> string" where
  "Join [] sep = []"
| "Join [x] sep = x"
| "Join (x # y # ys) sep = x @ sep @ Join (y # ys) sep"

text \<open>
  \<^verbatim>\<open>path.Base\<close>: the empty path gives \<^verbatim>\<open>"."\<close>; trailing slashes are stripped;
  what follows the last slash is kept; a path of slashes only gives \<^verbatim>\<open>"/"\<close>.
\<close>

function strip_trailing_slashes :: "string \<Rightarrow> string" where
  "strip_trailing_slashes p =
     (if length p > 0 \<and> p ! (length p - 1) = CHR ''/''
      then strip_trailing_slashes (take (length p - 1) p) else p)"
  by pat_completeness auto
termination
  by (relation "measure length") auto

declare strip_trailing_slashes.simps [simp del]

definition path_Base :: "string \<Rightarrow> string" where
  "path_Base p =
     (if p = [] then ''.''
      else
        let p1 = strip_trailing_slashes p;
            i = LastIndexByte p1 (CHR ''/'');
            p2 = (if i \<ge> 0 then drop (nat (i + 1)) p1 else p1)
        in if p2 = [] then ''/'' else p2)"

text \<open>
  \<^verbatim>\<open>filepath.Base\<close> on a Unix target: the separator is the slash and there is no
  volume name, so the steps are those of \<^verbatim>\<open>path.Base\<close>.
\<close>

definition filepath_Base :: "string \<Rightarrow> string" where
  "filepath_Base p = path_Base p"

subsection \<open>Frames\<close>

text \<open>
  \<^verbatim>\<open>type frame struct { file string; line int; function string }\<close>. The fields
  \<^verbatim>\<open>file\<close> and \<^verbatim>\<open>function\<close> are \<open>file'\<close> and \<open>function'\<close> here.
\<close>

record frame =
  file' :: string
  line :: int
  function' :: string

definition Path :: "frame \<Rightarrow> string" where
  "Path f = file' f"

definition File :: "frame \<Rightarrow> string" where
  "File f = filepath_Base (file' f)"

definition Line :: "frame \<Rightarrow> int" where
  "Line f = line f"

definition Func :: "frame \<Rightarrow> panic + string" where
  "Func f =
     (let fs = Split (path_Base (function' f)) (CHR ''.'') in
      if length fs \<ge> 1
      then (case slice_from fs 1 of Inl e \<Rightarrow> Inl e | Inr t \<Rightarrow> Inr (Join t ''.''))
      else index fs 0)"

definition Pkg :: "frame \<Rightarrow> panic + string" where
  "Pkg f = (let fs = Split (path_Base (function' f)) (CHR ''.'') in index fs 0)"

definition new_frame :: "string \<Rightarrow> int \<Rightarrow> string \<Rightarrow> frame" where
  "new_frame fl ln fn = \<lparr>file' = fl, line = ln, function' = fn\<rparr>"

subsection \<open>The host runtime\<close>

text \<open>
  Package \<^verbatim>\<open>runtime\<close> is not part of the repository; the file uses
  \<^verbatim>\<open>runtime.Callers\<close>, \<^verbatim>\<open>runtime.CallersFrames\<close> and \<^verbatim>\<open>Frames.Next\<close>. They are
  modelled after their documentation and implementation, over two parameters:
  \<^item> \<open>stack\<close>: the return addresses of the calls that are active on the goroutine
    when \<^verbatim>\<open>runtime.Callers\<close> runs, innermost first. Entry 0 is the frame of
    \<^verbatim>\<open>runtime.Callers\<close> itself, entry 1 the frame of its caller (here the
    function \<^verbatim>\<open>Callers\<close> of this file), entry 2 the caller of that, and so on
    outward.
  \<^item> \<open>symtab\<close>: the frames an address stands for. An address the runtime does not
    know stands for none, an ordinary one for one, and one inside inlined calls
    for several (innermost first).

  A program counter is a \<^verbatim>\<open>uintptr\<close>; Go's \<^verbatim>\<open>int\<close> is the signed reading
  (\<^const>\<open>sint\<close>) of a 64-bit word, and \<open>+\<close> on it wraps around.
\<close>

type_synonym uintptr = "64 word"
type_synonym go_int = "64 word"

record runtime_Frame =
  Frame_File :: string
  Frame_Line :: int
  Frame_Function :: string

text \<open>The zero value \<^verbatim>\<open>runtime.Frame{}\<close>.\<close>

definition zero_Frame :: runtime_Frame where
  "zero_Frame = \<lparr>Frame_File = [], Frame_Line = 0, Frame_Function = []\<rparr>"

record runtime =
  stack :: "uintptr list"
  symtab :: "uintptr \<Rightarrow> runtime_Frame list"

text \<open>
  \<^verbatim>\<open>runtime.Callers(skip, pc)\<close> skips \<open>skip\<close> frames, fills \<open>pc\<close> with the return
  addresses that follow, as many as fit, and returns how many it wrote and the
  buffer. The runtime counts \<open>skip\<close> down while it is positive, so a negative
  \<open>skip\<close> skips nothing (\<^term>\<open>nat skip = 0\<close>).
\<close>

definition runtime_Callers :: "runtime \<Rightarrow> int \<Rightarrow> uintptr list \<Rightarrow> nat \<times> uintptr list" where
  "runtime_Callers rt skip pc =
     (let w = take (length pc) (drop (nat skip) (stack rt))
      in (length w, w @ drop (length w) pc))"

text \<open>
  \<^verbatim>\<open>runtime.Frames\<close>: the addresses not yet looked up and the frames looked up but
  not yet returned.
\<close>

record Frames =
  callers :: "uintptr list"
  frames :: "runtime_Frame list"

definition CallersFrames :: "uintptr list \<Rightarrow> Frames" where
  "CallersFrames pcs = \<lparr>callers = pcs, frames = []\<rparr>"

text \<open>
  The first loop of \<^verbatim>\<open>Next\<close>: while fewer than two frames are buffered and an
  address is left, look the next address up and buffer its frames.
\<close>

fun fill :: "runtime \<Rightarrow> uintptr list \<Rightarrow> runtime_Frame list
    \<Rightarrow> uintptr list \<times> runtime_Frame list" where
  "fill rt [] fs = ([], fs)"
| "fill rt (pc # pcs) fs =
     (if length fs < 2 then fill rt pcs (fs @ symtab rt pc) else (pc # pcs, fs))"

text \<open>
  \<^verbatim>\<open>Next\<close> returns the first buffered frame and whether another one follows;
  with no frame at all it returns the zero frame and \<^verbatim>\<open>false\<close>.
\<close>

definition Next :: "runtime \<Rightarrow> Frames \<Rightarrow> (runtime_Frame \<times> bool) \<times> Frames" where
  "Next rt ci =
     (let (cl, fs) = fill rt (callers ci) (frames ci) in
      case fs of
        [] \<Rightarrow> ((zero_Frame, False), \<lparr>callers = cl, frames = []\<rparr>)
      | f # rest \<Rightarrow> ((f, length rest > 0), \<lparr>callers = cl, frames = rest\<rparr>))"


subsection \<open>The interface Frame\<close>

text \<open>
  \<^verbatim>\<open>type Frame interface { Path() string; File() string; Line() int; Func() string; Pkg() string }\<close>
  is exported, so a value of it is \<^verbatim>\<open>nil\<close>, a \<open>frame\<close> of this file, or a value
  of a type of another package. Of a foreign value the model keeps what each
  of its methods does when called, return a value or panic (\<open>None\<close>), and the
  text that package \<^verbatim>\<open>fmt\<close> prints for it under the verb \<^verbatim>\<open>v\<close> with given flags.
  A method call on the nil interface value panics.
\<close>

record foreign =
  foreign_Path :: "string option"
  foreign_File :: "string option"
  foreign_Line :: "int option"
  foreign_Func :: "string option"
  foreign_Pkg :: "string option"
  foreign_text :: "char list \<Rightarrow> string"

datatype Frame = NilFrame | StructFrame frame | ForeignFrame foreign

text \<open>\<^verbatim>\<open>pc.Func()\<close> on a value of the interface, the only method this file calls on one.\<close>

definition Frame_Func :: "Frame \<Rightarrow> panic + string" where
  "Frame_Func pc =
     (case pc of
        NilFrame \<Rightarrow> Inl NilDereference
      | StructFrame f \<Rightarrow> Func f
      | ForeignFrame x \<Rightarrow> (case foreign_Func x of None \<Rightarrow> Inl ForeignPanic | Some t \<Rightarrow> Inr t))"

subsection \<open>Building a CallStack\<close>

text \<open>
  \<^verbatim>\<open>type CallStack []Frame\<close>. A Go slice is either \<^verbatim>\<open>nil\<close> or a (possibly empty)
  sequence; both have length 0 when they hold nothing, and \<^verbatim>\<open>cs == nil\<close> tells
  them apart.
\<close>

datatype CallStack = NilStack | Stack "Frame list"

fun elems :: "CallStack \<Rightarrow> Frame list" where
  "elems NilStack = []"
| "elems (Stack fs) = fs"

definition len :: "CallStack \<Rightarrow> int" where
  "len cs = int (length (elems cs))"

text \<open>
  The loop both constructors run:
  \<^verbatim>\<open>for { f, more := fs.Next(); cs = append(cs, frame{f.File, f.Line, f.Function}); if !more { break } }\<close>.
\<close>

lemma fill_shrinks:
  "fill rt cl fs = (cl', fs') \<Longrightarrow> length cl' < length cl \<or> (cl' = cl \<and> fs' = fs)"
  by (induction cl arbitrary: fs) (fastforce split: if_splits)+

lemma Next_decreases:
  assumes "Next rt ci = ((f, True), ci')"
  shows "length (callers ci') < length (callers ci)
     \<or> (length (callers ci') = length (callers ci) \<and> length (frames ci') < length (frames ci))"
proof -
  obtain cl fs where fl: "fill rt (callers ci) (frames ci) = (cl, fs)"
    by (cases "fill rt (callers ci) (frames ci)")
  from assms fl obtain rest where fs: "fs = f # rest" and ci': "ci' = \<lparr>callers = cl, frames = rest\<rparr>"
    by (auto simp: Next_def split: list.splits)
  from fill_shrinks [OF fl] show ?thesis
  proof
    assume "length cl < length (callers ci)"
    with ci' show ?thesis by simp
  next
    assume "cl = callers ci \<and> fs = frames ci"
    with fs ci' show ?thesis by simp
  qed
qed

function frames_loop :: "runtime \<Rightarrow> Frames \<Rightarrow> Frame list \<Rightarrow> Frame list" where
  "frames_loop rt fs cs =
     (case Next rt fs of
        ((f, more'), fs') \<Rightarrow>
          let cs' = cs @ [StructFrame (new_frame (Frame_File f) (Frame_Line f) (Frame_Function f))]
          in if \<not> more' then cs' else frames_loop rt fs' cs')"
  by pat_completeness auto
termination
proof (relation "measures [\<lambda>(rt, fs, cs). length (callers fs), \<lambda>(rt, fs, cs). length (frames fs)]")
  show "wf (measures [\<lambda>(rt, fs, cs). length (callers fs), \<lambda>(rt, fs, cs). length (frames fs)])"
    by simp
next
  fix rt :: runtime and fs fs' :: Frames and cs cs' :: "Frame list"
    and x :: "runtime_Frame \<times> bool" and f :: runtime_Frame and more' :: bool
  assume "(x, fs') = Next rt fs" "(f, more') = x" "\<not> \<not> more'"
  then have "Next rt fs = ((f, True), fs')" by simp
  from Next_decreases [OF this]
  show "((rt, fs', cs'), (rt, fs, cs))
      \<in> measures [\<lambda>(rt, fs, cs). length (callers fs), \<lambda>(rt, fs, cs). length (frames fs)]"
    by auto
qed

declare frames_loop.simps [simp del]

text \<open>
  \<^verbatim>\<open>Callers\<close>: the buffer \<^verbatim>\<open>var pcs [32]uintptr\<close> holds 32 zeros;
  \<^verbatim>\<open>skip+2\<close> is computed on Go's \<^verbatim>\<open>int\<close>.
\<close>

definition Callers :: "runtime \<Rightarrow> go_int \<Rightarrow> CallStack" where
  "Callers rt skip =
     (case runtime_Callers rt (sint (skip + 2)) (replicate 32 0) of
        (n, pcs) \<Rightarrow>
          if n = 0 then NilStack
          else Stack (frames_loop rt (CallersFrames (take n pcs)) []))"

text \<open>
  \<^verbatim>\<open>CallStackFromPkgErrors\<close>: \<^verbatim>\<open>errors.StackTrace\<close> is a slice of
  \<^verbatim>\<open>errors.Frame\<close>, a \<^verbatim>\<open>uintptr\<close>; the first loop copies it into
  \<^verbatim>\<open>pcs := make([]uintptr, len(st))\<close>, entry by entry.
\<close>

fun copy_pcs :: "uintptr list \<Rightarrow> nat \<Rightarrow> uintptr list \<Rightarrow> uintptr list" where
  "copy_pcs [] i pcs = pcs"
| "copy_pcs (v # st) i pcs = copy_pcs st (i + 1) (pcs[i := v])"

definition CallStackFromPkgErrors :: "runtime \<Rightarrow> uintptr list \<Rightarrow> CallStack" where
  "CallStackFromPkgErrors rt st =
     (let pcs = copy_pcs st 0 (replicate (length st) 0)
      in Stack (frames_loop rt (CallersFrames pcs) []))"

subsection \<open>Formatting\<close>

text \<open>
  \<^verbatim>\<open>fmt.State\<close>: the flags of the directive being printed and the bytes
  written so far. \<^verbatim>\<open>fmt.Fprintf(s, ...)\<close> formats with a printer of its own and
  writes the text to \<open>s\<close>.
\<close>

record fmt_State =
  flags :: "char list"
  written :: string

definition Flag :: "fmt_State \<Rightarrow> char \<Rightarrow> bool" where
  "Flag s c = (c \<in> set (flags s))"

definition Write :: "fmt_State \<Rightarrow> string \<Rightarrow> fmt_State" where
  "Write s b = s\<lparr>written := written s @ b\<rparr>"

text \<open>The verb \<^verbatim>\<open>%d\<close>: an integer in decimal.\<close>

function digits :: "nat \<Rightarrow> string" where
  "digits n = (if n < 10 then [char_of (48 + n)] else digits (n div 10) @ [char_of (48 + n mod 10)])"
  by pat_completeness auto
termination
  by (relation "measure id") auto

declare digits.simps [simp del]

definition itoa :: "int \<Rightarrow> string" where
  "itoa i = (if i < 0 then CHR ''-'' # digits (nat (- i)) else digits (nat i))"

text \<open>
  \<^verbatim>\<open>frame.Format\<close>: the verb \<^verbatim>\<open>v\<close> with the flag \<^verbatim>\<open>+\<close> prints
  \<^verbatim>\<open>"[%s] "\<close> of \<^verbatim>\<open>Func()\<close> and falls through to the verb \<^verbatim>\<open>s\<close>, which prints
  \<^verbatim>\<open>"%s:%d"\<close> of \<^verbatim>\<open>Path()\<close> and \<^verbatim>\<open>Line()\<close>.
\<close>

definition frame_Format :: "frame \<Rightarrow> fmt_State \<Rightarrow> char \<Rightarrow> panic + fmt_State" where
  "frame_Format f s verb =
     (if verb = CHR ''v'' then
        (if Flag s (CHR ''+'') then
           (case Func f of
              Inl e \<Rightarrow> Inl e
            | Inr name \<Rightarrow>
                Inr (Write (Write s (''['' @ name @ ''] '')) (Path f @ '':'' @ itoa (Line f))))
         else Inr (Write s (Path f @ '':'' @ itoa (Line f))))
      else if verb = CHR ''s'' then Inr (Write s (Path f @ '':'' @ itoa (Line f)))
      else Inr s)"

text \<open>
  \<^verbatim>\<open>fmt.Fprintf(s, "%+v\n", pc)\<close> and the elements of \<^verbatim>\<open>"%#v"\<close>: the printer
  hands a frame to \<^verbatim>\<open>frame.Format\<close> with the directive's flags and the verb
  \<^verbatim>\<open>v\<close>.
\<close>

definition print_frame :: "char list \<Rightarrow> frame \<Rightarrow> panic + string" where
  "print_frame fl pc =
     (case frame_Format pc \<lparr>flags = fl, written = []\<rparr> (CHR ''v'') of
        Inl e \<Rightarrow> Inl e
      | Inr p \<Rightarrow> Inr (written p))"

text \<open>
  The same for a value of the interface: the printer writes \<^verbatim>\<open><nil>\<close> for the
  nil value (in Go syntax, under the flag \<^verbatim>\<open>#\<close>, \<^verbatim>\<open>failure.Frame(nil)\<close>), and
  for a foreign value the text of that value.
\<close>

definition print_Frame :: "char list \<Rightarrow> Frame \<Rightarrow> panic + string" where
  "print_Frame fl pc =
     (case pc of
        NilFrame \<Rightarrow> Inr (if CHR ''#'' \<in> set fl then ''failure.Frame(nil)'' else ''<nil>'')
      | StructFrame f \<Rightarrow> print_frame fl f
      | ForeignFrame x \<Rightarrow> Inr (foreign_text x fl))"

text \<open>\<^verbatim>\<open>for _, pc := range cs { fmt.Fprintf(s, "%+v\n", pc) }\<close>\<close>

fun format_plus :: "Frame list \<Rightarrow> fmt_State \<Rightarrow> panic + fmt_State" where
  "format_plus [] s = Inr s"
| "format_plus (pc # pcs) s =
     (case print_Frame ''+'' pc of
        Inl e \<Rightarrow> Inl e
      | Inr t \<Rightarrow> format_plus pcs (Write s (t @ [CHR 0x0A])))"

text \<open>
  \<^verbatim>\<open>fmt.Fprintf(s, "%#v", []Frame(cs))\<close>: the type, then \<^verbatim>\<open>(nil)\<close> for the nil
  slice, and otherwise the elements between braces, separated by \<^verbatim>\<open>", "\<close>.
\<close>

fun print_frames :: "Frame list \<Rightarrow> panic + string list" where
  "print_frames [] = Inr []"
| "print_frames (pc # pcs) =
     (case print_Frame ''#'' pc of
        Inl e \<Rightarrow> Inl e
      | Inr t \<Rightarrow> (case print_frames pcs of Inl e \<Rightarrow> Inl e | Inr ts \<Rightarrow> Inr (t # ts)))"

definition format_sharp :: "CallStack \<Rightarrow> fmt_State \<Rightarrow> panic + fmt_State" where
  "format_sharp cs s =
     (case cs of
        NilStack \<Rightarrow> Inr (Write s ''[]failure.Frame(nil)'')
      | Stack fs \<Rightarrow>
          (case print_frames fs of
             Inl e \<Rightarrow> Inl e
           | Inr ts \<Rightarrow> Inr (Write s (''[]failure.Frame{'' @ Join ts '', '' @ ''}''))))"

text \<open>\<^verbatim>\<open>for _, pc := range cs[:l-1] { fmt.Fprintf(s, "%s: ", pc.Func()) }\<close>\<close>

fun format_funcs :: "Frame list \<Rightarrow> fmt_State \<Rightarrow> panic + fmt_State" where
  "format_funcs [] s = Inr s"
| "format_funcs (pc # pcs) s =
     (case Frame_Func pc of
        Inl e \<Rightarrow> Inl e
      | Inr name \<Rightarrow> format_funcs pcs (Write s (name @ '': '')))"

text \<open>The \<^verbatim>\<open>default\<close> case of the verb \<^verbatim>\<open>v\<close>.\<close>

definition format_default :: "CallStack \<Rightarrow> fmt_State \<Rightarrow> panic + fmt_State" where
  "format_default cs s =
     (let l = len cs in
      if l = 0 then Inr s
      else
        (case slice_to (elems cs) (l - 1) of
           Inl e \<Rightarrow> Inl e
         | Inr front \<Rightarrow>
             (case format_funcs front s of
                Inl e \<Rightarrow> Inl e
              | Inr s1 \<Rightarrow>
                  (case index (elems cs) (l - 1) of
                     Inl e \<Rightarrow> Inl e
                   | Inr pc \<Rightarrow>
                       (case Frame_Func pc of
                          Inl e \<Rightarrow> Inl e
                        | Inr name \<Rightarrow> Inr (Write s1 name))))))"

text \<open>
  \<^verbatim>\<open>CallStack.Format\<close>. For the verb \<^verbatim>\<open>s\<close>, \<^verbatim>\<open>fmt.Fprintf(s, "%v", cs)\<close> runs
  \<^verbatim>\<open>Format\<close> again with the verb \<^verbatim>\<open>v\<close> and no flag, and writes its text to \<open>s\<close>.
  Any other verb prints nothing.
\<close>

definition Format :: "CallStack \<Rightarrow> fmt_State \<Rightarrow> char \<Rightarrow> panic + fmt_State" where
  "Format cs s verb =
     (if verb = CHR ''v'' then
        (if Flag s (CHR ''+'') then format_plus (elems cs) s
         else if Flag s (CHR ''#'') then format_sharp cs s
         else format_default cs s)
      else if verb = CHR ''s'' then
        (case format_default cs \<lparr>flags = [], written = []\<rparr> of
           Inl e \<Rightarrow> Inl e
         | Inr p \<Rightarrow> Inr (Write s (written p)))
      else Inr s)"

subsection \<open>Calling an accessor\<close>

text \<open>
  The five accessors have value receivers: a call works on its own copy of the
  frame. \<open>call\<close> pairs the value a call returns with the frame as the call leaves
  it; no accessor assigns to a field. \<open>calls\<close> makes the calls of a list in turn,
  each on the frame the previous one left.
\<close>

datatype accessor = Path_call | File_call | Line_call | Func_call | Pkg_call

datatype answer = Text string | Number int | Panicked panic

definition call :: "accessor \<Rightarrow> frame \<Rightarrow> answer \<times> frame" where
  "call a f =
     (case a of
        Path_call \<Rightarrow> (Text (Path f), f)
      | File_call \<Rightarrow> (Text (File f), f)
      | Line_call \<Rightarrow> (Number (Line f), f)
      | Func_call \<Rightarrow> ((case Func f of Inl e \<Rightarrow> Panicked e | Inr t \<Rightarrow> Text t), f)
      | Pkg_call \<Rightarrow> ((case Pkg f of Inl e \<Rightarrow> Panicked e | Inr t \<Rightarrow> Text t), f))"

fun calls :: "accessor list \<Rightarrow> frame \<Rightarrow> answer list \<times> frame" where
  "calls [] f = ([], f)"
| "calls (a # as) f =
     (case call a f of (r, f') \<Rightarrow> (case calls as f' of (rs, f'') \<Rightarrow> (r # rs, f'')))"

subsection \<open>What a capture is expected to hold\<close>

text \<open>
  These are not taken from the code; the theorems compare the code with them.
  \<open>frame_of\<close> is the CallStack entry for a runtime frame: a frame of this file
  with the same file, line and function. \<open>resolved\<close> lists the runtime frames a
  sequence of addresses stands for, in the order of the addresses. \<open>frame_at\<close>
  is the entry for an address that stands for one frame.
\<close>

definition frame_of :: "runtime_Frame \<Rightarrow> Frame" where
  "frame_of f =
     StructFrame \<lparr>file' = Frame_File f, line = Frame_Line f, function' = Frame_Function f\<rparr>"

definition resolved :: "runtime \<Rightarrow> uintptr list \<Rightarrow> runtime_Frame list" where
  "resolved rt pcs = concat (map (symtab rt) pcs)"

definition frame_at :: "runtime \<Rightarrow> uintptr \<Rightarrow> Frame" where
  "frame_at rt pc = frame_of (hd (symtab rt pc))"

text \<open>
  \<open>captured\<close> is the part of the goroutine's stack that \<^verbatim>\<open>Callers(skip)\<close> asks
  the runtime for: 32 entries at most, past the entries that the sum
  \<^verbatim>\<open>skip+2\<close>, as Go computes it, tells the runtime to skip. \<open>zero_frame\<close> is the
  frame with the zero value in every field.
\<close>

definition captured :: "runtime \<Rightarrow> go_int \<Rightarrow> uintptr list" where
  "captured rt skip = take 32 (drop (nat (sint (skip + 2))) (stack rt))"

definition zero_frame :: Frame where
  "zero_frame = StructFrame \<lparr>file' = [], line = 0, function' = []\<rparr>"

subsection \<open>A sample goroutine\<close>

text \<open>
  \<^verbatim>\<open>main.main\<close> calls \<^verbatim>\<open>main.GetACL\<close>, which calls \<^verbatim>\<open>Callers\<close>, which calls
  \<^verbatim>\<open>runtime.Callers\<close>; the addresses are 4, 3, 2 and 1.
\<close>

definition sample_symtab :: "uintptr \<Rightarrow> runtime_Frame list" where
  "sample_symtab pc =
     (if pc = 1 then
        [\<lparr>Frame_File = ''/go/src/runtime/extern.go'', Frame_Line = 211,
          Frame_Function = ''runtime.Callers''\<rparr>]
      else if pc = 2 then
        [\<lparr>Frame_File = ''/src/failure/callstack.go'', Frame_Line = 45,
          Frame_Function = ''github.com/oinume/failure.Callers''\<rparr>]
      else if pc = 3 then
        [\<lparr>Frame_File = ''/src/app/main.go'', Frame_Line = 21, Frame_Function = ''main.GetACL''\<rparr>]
      else if pc = 4 then
        [\<lparr>Frame_File = ''/src/app/main.go'', Frame_Line = 47, Frame_Function = ''main.main''\<rparr>]
      else [])"

definition sample_runtime :: runtime where
  "sample_runtime = \<lparr>stack = [1, 2, 3, 4], symtab = sample_symtab\<rparr>"

text \<open>The CallStack entries of the four calls of the sample goroutine.\<close>

definition frame_runtime_Callers :: Frame where
  "frame_runtime_Callers =
     StructFrame \<lparr>file' = ''/go/src/runtime/extern.go'', line = 211, function' = ''runtime.Callers''\<rparr>"

definition frame_Callers :: Frame where
  "frame_Callers =
     StructFrame \<lparr>file' = ''/src/failure/callstack.go'', line = 45,
       function' = ''github.com/oinume/failure.Callers''\<rparr>"

definition frame_GetACL :: Frame where
  "frame_GetACL = StructFrame \<lparr>file' = ''/src/app/main.go'', line = 21, function' = ''main.GetACL''\<rparr>"

definition frame_main :: Frame where
  "frame_main = StructFrame \<lparr>file' = ''/src/app/main.go'', line = 47, function' = ''main.main''\<rparr>"

text \<open>A deeper goroutine: 40 more calls below \<^verbatim>\<open>Callers\<close>.\<close>

definition deep_runtime :: runtime where
  "deep_runtime = \<lparr>stack = 1 # 2 # replicate 40 3, symtab = sample_symtab\<rparr>"

definition sample_frame :: frame where
  "sample_frame = new_frame ''/src/failure/callstack.go'' 45 ''github.com/oinume/failure.Callers''"

section \<open>Properties\<close>

subsection \<open>Splitting and joining\<close>

lemma IndexByte_takeWhile:
  "IndexByte s c = (if c \<in> set s then int (length (takeWhile (\<lambda>x. x \<noteq> c) s)) else - 1)"
  by (induction s) (auto simp: Let_def)

lemma Split_notin: "c \<notin> set s \<Longrightarrow> Split s c = [s]"
  by (subst Split.simps) (simp add: IndexByte_takeWhile)

lemma cut_at_first:
  "c \<in> set s \<Longrightarrow>
     s = takeWhile (\<lambda>x. x \<noteq> c) s @ c # drop (Suc (length (takeWhile (\<lambda>x. x \<noteq> c) s))) s"
  by (induction s) auto

lemma Split_in:
  "c \<in> set s \<Longrightarrow>
     Split s c =
       takeWhile (\<lambda>x. x \<noteq> c) s # Split (drop (Suc (length (takeWhile (\<lambda>x. x \<noteq> c) s))) s) c"
  by (subst Split.simps) (simp add: IndexByte_takeWhile Let_def takeWhile_eq_take [symmetric])

lemma Split_nonempty: "Split s c \<noteq> []"
  by (cases "c \<in> set s") (simp_all add: Split_notin Split_in)

lemma takeWhile_notin: "c \<notin> set s \<Longrightarrow> takeWhile (\<lambda>x. x \<noteq> c) s = s"
  by (induction s) auto

lemma hd_Split: "hd (Split s c) = takeWhile (\<lambda>x. x \<noteq> c) s"
  by (cases "c \<in> set s") (simp_all add: Split_notin Split_in takeWhile_notin)

lemma Join_Cons: "xs \<noteq> [] \<Longrightarrow> Join (x # xs) sep = x @ sep @ Join xs sep"
  by (cases xs) simp_all

lemma Join_Split: "Join (Split s c) [c] = s"
proof (induction s c rule: Split.induct)
  case (1 s sep)
  show ?case
  proof (cases "sep \<in> set s")
    case False
    then show ?thesis by (simp add: Split_notin)
  next
    case True
    let ?k = "length (takeWhile (\<lambda>x. x \<noteq> sep) s)"
    from True have ix: "IndexByte s sep = int ?k"
      by (simp add: IndexByte_takeWhile)
    then have ih: "Join (Split (drop (nat (int ?k) + 1) s) sep) [sep] = drop (nat (int ?k) + 1) s"
      using "1.IH" [of "int ?k"] by simp
    note cut = cut_at_first [OF True]
    from ih True show ?thesis
      by (subst (2) cut) (simp add: Split_in Join_Cons Split_nonempty)
  qed
qed

lemma tl_Split:
  "Join (tl (Split s c)) [c] = drop (Suc (length (takeWhile (\<lambda>x. x \<noteq> c) s))) s"
  by (cases "c \<in> set s") (simp_all add: Split_notin Split_in Join_Split takeWhile_notin)

subsection \<open>Base names\<close>

lemma strip_keeps:
  "p \<noteq> [] \<Longrightarrow> last p \<noteq> CHR ''/'' \<Longrightarrow> strip_trailing_slashes p = p"
  by (subst strip_trailing_slashes.simps) (simp add: last_conv_nth)

lemma set_strip: "set (strip_trailing_slashes p) \<subseteq> set p"
proof (induction p rule: strip_trailing_slashes.induct)
  case (1 p)
  show ?case
  proof (cases "length p > 0 \<and> p ! (length p - 1) = CHR ''/''")
    case True
    with 1 have "set (strip_trailing_slashes (take (length p - 1) p)) \<subseteq> set (take (length p - 1) p)"
      by simp
    also have "\<dots> \<subseteq> set p" by (rule set_take_subset)
    finally show ?thesis using True by (subst strip_trailing_slashes.simps) simp
  next
    case False
    then show ?thesis by (subst strip_trailing_slashes.simps) auto
  qed
qed

lemma last_index_from_found:
  "c \<notin> set n \<Longrightarrow> j \<le> length n \<Longrightarrow>
     last_index_from (d @ c # n) c (Suc (length d + j)) = int (length d)"
  by (induction j) (auto simp: nth_append)

lemma LastIndexByte_found:
  "c \<notin> set n \<Longrightarrow> LastIndexByte (d @ c # n) c = int (length d)"
  using last_index_from_found [of c n "length n" d] by (simp add: LastIndexByte_def)

lemma path_Base_name:
  assumes "n \<noteq> []" and "CHR ''/'' \<notin> set n"
  shows "path_Base (d @ ''/'' @ n) = n"
proof -
  from assms have "last n \<noteq> CHR ''/''"
    using last_in_set [of n] by metis
  with assms have "last (d @ ''/'' @ n) \<noteq> CHR ''/''" by simp
  then have "strip_trailing_slashes (d @ ''/'' @ n) = d @ ''/'' @ n"
    by (intro strip_keeps) simp_all
  with assms LastIndexByte_found [of "CHR ''/''" n d] show ?thesis
    by (simp add: path_Base_def nat_add_distrib)
qed

lemma set_path_Base: "p \<noteq> [] \<Longrightarrow> set (path_Base p) \<subseteq> insert (CHR ''/'') (set p)"
proof -
  assume "p \<noteq> []"
  have "set (drop k (strip_trailing_slashes p)) \<subseteq> set p" for k
    using set_drop_subset [of k "strip_trailing_slashes p"] set_strip [of p] by blast
  with set_strip [of p] \<open>p \<noteq> []\<close> show ?thesis
    by (auto simp: path_Base_def Let_def)
qed

lemma Func_value:
  "Func f = Inr (Join (drop 1 (Split (path_Base (function' f)) (CHR ''.''))) ''.'')"
  using Split_nonempty [of "path_Base (function' f)" "CHR ''.''"]
  by (cases "Split (path_Base (function' f)) (CHR ''.'')") (simp_all add: Func_def slice_from_def)

lemma Pkg_value:
  "Pkg f = Inr (takeWhile (\<lambda>c. c \<noteq> CHR ''.'') (path_Base (function' f)))"
  using Split_nonempty [of "path_Base (function' f)" "CHR ''.''"]
    hd_Split [of "path_Base (function' f)" "CHR ''.''"]
  by (cases "Split (path_Base (function' f)) (CHR ''.'')") (simp_all add: Pkg_def index_def)

subsection \<open>The accessors\<close>

text \<open>
  Claim C6. For a frame whose file path ends in a slash followed by a non-empty
  name without a slash, \<open>File\<close> returns that name. With \<open>b\<close> the
  \<^verbatim>\<open>path.Base\<close> of the qualified function name, \<open>Pkg\<close> returns the part of \<open>b\<close>
  before its first dot (all of \<open>b\<close> when it has none), and \<open>Func\<close> returns what
  follows that part and the dot: the name with the leading qualifier stripped.
  Neither call panics.
\<close>

theorem frame_accessors_derived:
  "(file' f = dir @ ''/'' @ name \<and> name \<noteq> [] \<and> CHR ''/'' \<notin> set name \<longrightarrow> File f = name)
   \<and> Pkg f = Inr (takeWhile (\<lambda>c. c \<noteq> CHR ''.'') (path_Base (function' f)))
   \<and> Func f = Inr (drop (Suc (length (takeWhile (\<lambda>c. c \<noteq> CHR ''.'') (path_Base (function' f)))))
                     (path_Base (function' f)))"
proof (intro conjI impI)
  assume "file' f = dir @ ''/'' @ name \<and> name \<noteq> [] \<and> CHR ''/'' \<notin> set name"
  then show "File f = name"
    by (simp add: File_def filepath_Base_def path_Base_name del: append.simps)
next
  show "Pkg f = Inr (takeWhile (\<lambda>c. c \<noteq> CHR ''.'') (path_Base (function' f)))"
    by (rule Pkg_value)
next
  show "Func f = Inr (drop (Suc (length (takeWhile (\<lambda>c. c \<noteq> CHR ''.'') (path_Base (function' f)))))
                     (path_Base (function' f)))"
    using tl_Split [of "path_Base (function' f)" "CHR ''.''"]
    by (simp add: Func_value drop_Suc)
qed

theorem frame_accessors_derived_witness:
  "file' sample_frame = ''/src/failure'' @ ''/'' @ ''callstack.go''
   \<and> File sample_frame = ''callstack.go''
   \<and> Pkg sample_frame = Inr ''failure''
   \<and> Func sample_frame = Inr ''Callers''"
proof -
  have fl: "file' sample_frame = ''/src/failure'' @ ''/'' @ ''callstack.go''"
    by (simp add: sample_frame_def new_frame_def)
  have pb: "path_Base (function' sample_frame) = ''failure.Callers''"
    by code_simp
  from frame_accessors_derived [of sample_frame "''/src/failure''" "''callstack.go''"] fl pb
  show ?thesis by simp
qed

text \<open>
  Claim C9. \<^verbatim>\<open>strings.Split\<close> returns at least one element for every string, so
  the test \<^verbatim>\<open>len(fs) >= 1\<close> of \<open>Func\<close> always holds: for every frame \<open>Func\<close>
  returns the value of its first branch, the elements after the first joined
  by dots, and never reaches \<^verbatim>\<open>return fs[0]\<close>. For a qualified function name
  without a dot it therefore returns the empty string.
\<close>

theorem Func_fallback_unreachable:
  "1 \<le> length (Split s sep)
   \<and> Func f = Inr (Join (drop 1 (Split (path_Base (function' f)) (CHR ''.''))) ''.'')
   \<and> (CHR ''.'' \<notin> set (function' f) \<longrightarrow> Func f = Inr [])"
proof (intro conjI impI)
  show "1 \<le> length (Split s sep)"
    using Split_nonempty [of s sep] by (cases "Split s sep") simp_all
next
  show "Func f = Inr (Join (drop 1 (Split (path_Base (function' f)) (CHR ''.''))) ''.'')"
    by (rule Func_value)
next
  assume nodot: "CHR ''.'' \<notin> set (function' f)"
  show "Func f = Inr []"
  proof (cases "function' f = []")
    case True
    then have "path_Base (function' f) = ''.''" by (simp add: path_Base_def)
    then show ?thesis
      using tl_Split [of "''.''" "CHR ''.''"] by (simp add: Func_value drop_Suc)
  next
    case False
    with nodot set_path_Base [of "function' f"] have "CHR ''.'' \<notin> set (path_Base (function' f))"
      by auto
    then show ?thesis
      by (simp add: Func_value Split_notin)
  qed
qed

theorem Func_fallback_unreachable_witness:
  "CHR ''.'' \<notin> set ''goexit''
   \<and> Func (new_frame ''/go/src/runtime/asm_amd64.s'' 1333 ''goexit'') = Inr []
   \<and> 1 \<le> length (Split [] (CHR ''.''))"
proof -
  let ?f = "new_frame ''/go/src/runtime/asm_amd64.s'' 1333 ''goexit''"
  have nodot: "CHR ''.'' \<notin> set (function' ?f)"
    by (simp add: new_frame_def)
  from Func_fallback_unreachable [of "[]" "CHR ''.''" ?f]
  have "1 \<le> length (Split [] (CHR ''.''))"
    and "CHR ''.'' \<notin> set (function' ?f) \<longrightarrow> Func ?f = Inr []"
    by blast+
  with nodot show ?thesis by (simp add: new_frame_def)
qed

subsection \<open>Frames are not modified\<close>

lemma call_frame: "snd (call a f) = f"
  by (cases a) (simp_all add: call_def)

lemma calls_eq: "calls as f = (map (\<lambda>a. fst (call a f)) as, f)"
proof (induction as)
  case Nil
  show ?case by simp
next
  case (Cons a as)
  obtain r where "call a f = (r, f)"
    using call_frame [of a f] by (cases "call a f") simp
  with Cons show ?case by simp
qed

text \<open>
  Claim C7. A call of any of the five accessors leaves the frame as it was; a
  sequence of calls returns, for each call, what that call returns on the
  original frame, and leaves the frame unchanged, so repeated calls return equal
  results; and the value returned depends on the three fields only.
\<close>

theorem accessors_leave_frame:
  "snd (call a f) = f
   \<and> calls as f = (map (\<lambda>a. fst (call a f)) as, f)
   \<and> (file' f = file' g \<and> line f = line g \<and> function' f = function' g
        \<longrightarrow> fst (call a f) = fst (call a g))"
proof (intro conjI impI)
  show "snd (call a f) = f" by (rule call_frame)
next
  show "calls as f = (map (\<lambda>a. fst (call a f)) as, f)" by (rule calls_eq)
next
  assume "file' f = file' g \<and> line f = line g \<and> function' f = function' g"
  then have "f = g" by simp
  then show "fst (call a f) = fst (call a g)" by simp
qed

theorem accessors_leave_frame_witness:
  "calls [Func_call, Pkg_call, Func_call, Line_call] sample_frame =
     ([Text ''Callers'', Text ''failure'', Text ''Callers'', Number 45], sample_frame)
   \<and> fst (call File_call sample_frame) =
       fst (call File_call (new_frame ''/src/failure/callstack.go'' 45 ''github.com/oinume/failure.Callers''))"
proof -
  have same: "file' sample_frame = file' (new_frame ''/src/failure/callstack.go'' 45 ''github.com/oinume/failure.Callers'')
      \<and> line sample_frame = line (new_frame ''/src/failure/callstack.go'' 45 ''github.com/oinume/failure.Callers'')
      \<and> function' sample_frame = function' (new_frame ''/src/failure/callstack.go'' 45 ''github.com/oinume/failure.Callers'')"
    by (simp add: sample_frame_def)
  have f: "fst (call Func_call sample_frame) = Text ''Callers''" by code_simp
  have p: "fst (call Pkg_call sample_frame) = Text ''failure''" by code_simp
  have l: "fst (call Line_call sample_frame) = Number 45" by code_simp
  from accessors_leave_frame [of File_call sample_frame "[Func_call, Pkg_call, Func_call, Line_call]"
      "new_frame ''/src/failure/callstack.go'' 45 ''github.com/oinume/failure.Callers''"] same f p l
  show ?thesis by simp
qed

subsection \<open>Formatting\<close>

lemma Func_total: "\<exists>t. Func f = Inr t"
  by (simp add: Func_value)

lemma Frame_Func_cases:
  "(\<exists>t. Frame_Func pc = Inr t) \<or> Frame_Func pc = Inl NilDereference \<or> Frame_Func pc = Inl ForeignPanic"
proof (cases pc)
  case NilFrame
  then show ?thesis by (simp add: Frame_Func_def)
next
  case (StructFrame f)
  with Func_total [of f] show ?thesis by (auto simp: Frame_Func_def)
next
  case (ForeignFrame x)
  then show ?thesis by (cases "foreign_Func x") (simp_all add: Frame_Func_def)
qed

lemma format_funcs_cases:
  "(\<exists>s'. format_funcs pcs s = Inr s') \<or> format_funcs pcs s = Inl NilDereference
     \<or> format_funcs pcs s = Inl ForeignPanic"
proof (induction pcs arbitrary: s)
  case Nil
  show ?case by simp
next
  case (Cons pc pcs)
  from Frame_Func_cases [of pc] show ?case
  proof (elim disjE exE)
    fix t assume "Frame_Func pc = Inr t"
    with Cons [of "Write s (t @ '': '')"] show ?thesis by simp
  qed simp_all
qed

lemma format_funcs_returns:
  "\<forall>pc\<in>set pcs. \<exists>t. Frame_Func pc = Inr t \<Longrightarrow> \<exists>s'. format_funcs pcs s = Inr s'"
proof (induction pcs arbitrary: s)
  case Nil
  show ?case by simp
next
  case (Cons pc pcs)
  then obtain t where "Frame_Func pc = Inr t" by auto
  with Cons show ?case by simp
qed

lemma print_Frame_total: "\<exists>t. print_Frame fl pc = Inr t"
proof (cases pc)
  case (StructFrame f)
  obtain t where "Func f = Inr t" using Func_total by blast
  with StructFrame show ?thesis by (simp add: print_Frame_def print_frame_def frame_Format_def)
qed (simp_all add: print_Frame_def)

lemma format_plus_total: "\<exists>s'. format_plus pcs s = Inr s'"
proof (induction pcs arbitrary: s)
  case Nil
  show ?case by simp
next
  case (Cons pc pcs)
  obtain t where "print_Frame ''+'' pc = Inr t" using print_Frame_total by blast
  with Cons show ?case by simp
qed

lemma print_frames_total: "\<exists>ts. print_frames pcs = Inr ts"
proof (induction pcs)
  case Nil
  show ?case by simp
next
  case (Cons pc pcs)
  obtain t where "print_Frame ''#'' pc = Inr t" using print_Frame_total by blast
  with Cons show ?case by auto
qed

lemma format_sharp_total: "\<exists>s'. format_sharp cs s = Inr s'"
proof (cases cs)
  case NilStack
  then show ?thesis by (simp add: format_sharp_def)
next
  case (Stack fs)
  obtain ts where "print_frames fs = Inr ts" using print_frames_total by blast
  with Stack show ?thesis by (simp add: format_sharp_def)
qed

lemma format_default_unfold:
  assumes "elems cs \<noteq> []"
  shows "format_default cs s =
     (case format_funcs (butlast (elems cs)) s of
        Inl e \<Rightarrow> Inl e
      | Inr s1 \<Rightarrow> (case Frame_Func (last (elems cs)) of Inl e \<Rightarrow> Inl e | Inr name \<Rightarrow> Inr (Write s1 name)))"
proof -
  let ?l = "len cs"
  from assms have pos: "0 < ?l" by (simp add: len_def)
  have n: "nat (?l - 1) = length (elems cs) - 1" by (simp add: len_def)
  from pos have st: "slice_to (elems cs) (?l - 1) = Inr (butlast (elems cs))"
    unfolding slice_to_def n by (simp add: len_def butlast_conv_take)
  from pos assms have ix: "index (elems cs) (?l - 1) = Inr (last (elems cs))"
    unfolding index_def n by (simp add: len_def last_conv_nth)
  from pos st ix show ?thesis
    by (simp add: format_default_def Let_def cong: sum.case_cong)
qed

lemma format_default_cases:
  "(\<exists>s'. format_default cs s = Inr s') \<or> format_default cs s = Inl NilDereference
     \<or> format_default cs s = Inl ForeignPanic"
proof (cases "elems cs = []")
  case True
  then show ?thesis by (simp add: format_default_def len_def)
next
  case False
  from format_funcs_cases [of "butlast (elems cs)" s] Frame_Func_cases [of "last (elems cs)"]
  show ?thesis
    by (auto simp: format_default_unfold [OF False])
qed

lemma format_default_returns:
  assumes "\<forall>pc\<in>set (elems cs). \<exists>t. Frame_Func pc = Inr t"
  shows "\<exists>s'. format_default cs s = Inr s'"
proof (cases "elems cs = []")
  case True
  then show ?thesis by (simp add: format_default_def len_def)
next
  case False
  from assms have "\<forall>pc\<in>set (butlast (elems cs)). \<exists>t. Frame_Func pc = Inr t"
    by (meson in_set_butlastD)
  from format_funcs_returns [OF this] obtain s1 where "format_funcs (butlast (elems cs)) s = Inr s1"
    by blast
  moreover from assms False obtain t where "Frame_Func (last (elems cs)) = Inr t"
    using last_in_set by blast
  ultimately show ?thesis
    by (simp add: format_default_unfold [OF False])
qed

lemma Format_cases:
  "(\<exists>s'. Format cs s verb = Inr s') \<or> Format cs s verb = Inl NilDereference
     \<or> Format cs s verb = Inl ForeignPanic"
  using format_plus_total [of "elems cs" s] format_sharp_total [of cs s]
    format_default_cases [of cs s] format_default_cases [of cs "\<lparr>flags = [], written = []\<rparr>"]
  by (auto simp: Format_def)

lemma Format_returns:
  assumes "\<forall>pc\<in>set (elems cs). \<exists>t. Frame_Func pc = Inr t"
  shows "\<exists>s'. Format cs s verb = Inr s'"
  using format_plus_total [of "elems cs" s] format_sharp_total [of cs s]
    format_default_returns [OF assms, of s] format_default_returns [OF assms, of "\<lparr>flags = [], written = []\<rparr>"]
  by (auto simp: Format_def)

text \<open>
  Claim C8 calls \<open>Format\<close> total over all CallStack values. A CallStack may hold
  the nil interface value: for \<^verbatim>\<open>CallStack{nil}\<close> the length is 1, the guard is
  passed, and \<^verbatim>\<open>cs[l-1].Func()\<close> is a method call on nil, which panics.
\<close>

theorem Format_nil_element_panics:
  "len (Stack [NilFrame]) = 1
   \<and> Format (Stack [NilFrame]) \<lparr>flags = [], written = []\<rparr> (CHR ''v'') = Inl NilDereference"
  by (simp add: len_def Format_def Flag_def format_default_def slice_to_def index_def Frame_Func_def)

text \<open>
  Claim C8, amended. For a CallStack of length 0 (nil or empty), \<open>Format\<close> with
  the verb \<^verbatim>\<open>v\<close> and neither flag writes nothing and returns; the guard is what
  keeps it from the slice expression, since \<^verbatim>\<open>cs[:l-1]\<close> on a stack of length 0
  is out of bounds. For every CallStack, every state and every verb, \<open>Format\<close>
  never fails on an index or a slice bound. It returns without a panic
  whenever \<^verbatim>\<open>Func()\<close> returns on every element, as it does on every \<open>frame\<close>
  of this file; the only panics are those of \<^verbatim>\<open>Func()\<close> on a nil or a foreign
  element.
\<close>

theorem Format_empty_safe:
  "(len cs = 0 \<and> \<not> Flag s (CHR ''+'') \<and> \<not> Flag s (CHR ''#'') \<longrightarrow> Format cs s (CHR ''v'') = Inr s)
   \<and> (len cs = 0 \<longrightarrow> slice_to (elems cs) (len cs - 1) = Inl SliceBoundsOutOfRange)
   \<and> Format cs s verb \<noteq> Inl IndexOutOfRange
   \<and> Format cs s verb \<noteq> Inl SliceBoundsOutOfRange
   \<and> ((\<forall>pc\<in>set (elems cs). \<exists>t. Frame_Func pc = Inr t) \<longrightarrow> (\<exists>s'. Format cs s verb = Inr s'))
   \<and> (\<exists>t. Frame_Func (StructFrame f) = Inr t)"
proof (intro conjI impI)
  assume "len cs = 0 \<and> \<not> Flag s (CHR ''+'') \<and> \<not> Flag s (CHR ''#'')"
  then show "Format cs s (CHR ''v'') = Inr s"
    by (simp add: Format_def format_default_def)
next
  assume "len cs = 0"
  then show "slice_to (elems cs) (len cs - 1) = Inl SliceBoundsOutOfRange"
    by (simp add: slice_to_def)
next
  show "Format cs s verb \<noteq> Inl IndexOutOfRange" and "Format cs s verb \<noteq> Inl SliceBoundsOutOfRange"
    using Format_cases [of cs s verb] by auto
next
  assume "\<forall>pc\<in>set (elems cs). \<exists>t. Frame_Func pc = Inr t"
  then show "\<exists>s'. Format cs s verb = Inr s'" by (rule Format_returns)
next
  show "\<exists>t. Frame_Func (StructFrame f) = Inr t"
    using Func_total [of f] by (simp add: Frame_Func_def)
qed

theorem Format_empty_safe_witness:
  "len NilStack = 0 \<and> len (Stack []) = 0
   \<and> Format NilStack \<lparr>flags = [], written = ''error: ''\<rparr> (CHR ''v'') = Inr \<lparr>flags = [], written = ''error: ''\<rparr>
   \<and> Format (Stack []) \<lparr>flags = [], written = ''error: ''\<rparr> (CHR ''v'') = Inr \<lparr>flags = [], written = ''error: ''\<rparr>
   \<and> slice_to (elems (Stack [])) (len (Stack []) - 1) = Inl SliceBoundsOutOfRange
   \<and> (\<exists>s'. Format (Stack [StructFrame sample_frame, StructFrame sample_frame])
              \<lparr>flags = [], written = []\<rparr> (CHR ''v'') = Inr s')"
proof -
  let ?s = "\<lparr>flags = [], written = ''error: ''\<rparr>"
  have e: "len NilStack = 0" "len (Stack []) = 0" by (simp_all add: len_def)
  have fl: "\<not> Flag ?s (CHR ''+'')" "\<not> Flag ?s (CHR ''#'')"
    by (simp_all add: Flag_def)
  from Format_empty_safe [of NilStack ?s "CHR ''v''"] e fl
  have a: "Format NilStack ?s (CHR ''v'') = Inr ?s" by blast
  from Format_empty_safe [of "Stack []" ?s "CHR ''v''"] e fl
  have b: "Format (Stack []) ?s (CHR ''v'') = Inr ?s"
    and c: "slice_to (elems (Stack [])) (len (Stack []) - 1) = Inl SliceBoundsOutOfRange"
    by blast+
  let ?cs = "Stack [StructFrame sample_frame, StructFrame sample_frame]"
  from Format_empty_safe [of ?cs "\<lparr>flags = [], written = []\<rparr>" "CHR ''v''" sample_frame]
  have "\<exists>t. Frame_Func (StructFrame sample_frame) = Inr t"
    and "(\<forall>pc\<in>set (elems ?cs). \<exists>t. Frame_Func pc = Inr t)
      \<longrightarrow> (\<exists>s'. Format ?cs \<lparr>flags = [], written = []\<rparr> (CHR ''v'') = Inr s')"
    by blast+
  then have d: "\<exists>s'. Format ?cs \<lparr>flags = [], written = []\<rparr> (CHR ''v'') = Inr s'" by simp
  from e a b c d show ?thesis by blast
qed

subsection \<open>What the constructors return\<close>

lemma fill_resolved:
  "fill rt cl fs = (cl', fs') \<Longrightarrow>
     fs' @ resolved rt cl' = fs @ resolved rt cl \<and> (length fs' < 2 \<longrightarrow> cl' = [])"
  by (induction cl arbitrary: fs) (auto simp: resolved_def split: if_splits)

lemma resolved_Nil: "resolved rt [] = []"
  by (simp add: resolved_def)

lemma frames_loop_eq:
  "frames_loop rt \<lparr>callers = cl, frames = buf\<rparr> acc =
     acc @ (if buf @ resolved rt cl = [] then [zero_frame]
            else map frame_of (buf @ resolved rt cl))"
proof (induction rt "\<lparr>callers = cl, frames = buf\<rparr>" acc arbitrary: cl buf rule: frames_loop.induct)
  case (1 rt acc)
  obtain cl' fs' where fl: "fill rt cl buf = (cl', fs')"
    by (cases "fill rt cl buf")
  from fill_resolved [OF fl]
  have all: "fs' @ resolved rt cl' = buf @ resolved rt cl" and short: "length fs' < 2 \<Longrightarrow> cl' = []"
    by simp_all
  show ?case
  proof (cases fs')
    case Nil
    with short have "cl' = []" by simp
    with all Nil have "buf @ resolved rt cl = []" by (simp add: resolved_Nil)
    moreover from fl Nil have "Next rt \<lparr>callers = cl, frames = buf\<rparr> = ((zero_Frame, False), \<lparr>callers = cl', frames = []\<rparr>)"
      by (simp add: Next_def)
    ultimately show ?thesis
      by (subst frames_loop.simps) (simp add: frame_of_def new_frame_def zero_frame_def zero_Frame_def)
  next
    case (Cons f rest)
    show ?thesis
    proof (cases rest)
      case Nil
      with Cons short have "cl' = []" by simp
      with all Cons Nil have "buf @ resolved rt cl = [f]" by (simp add: resolved_Nil)
      moreover from fl Cons Nil have "Next rt \<lparr>callers = cl, frames = buf\<rparr> = ((f, False), \<lparr>callers = cl', frames = []\<rparr>)"
        by (simp add: Next_def)
      ultimately show ?thesis
        by (subst frames_loop.simps) (simp add: frame_of_def new_frame_def zero_frame_def zero_Frame_def)
    next
      case (Cons g rest')
      with \<open>fs' = f # rest\<close> fl have nx: "Next rt \<lparr>callers = cl, frames = buf\<rparr> = ((f, True), \<lparr>callers = cl', frames = rest\<rparr>)"
        by (simp add: Next_def)
      have ih: "frames_loop rt \<lparr>callers = cl', frames = rest\<rparr> (acc @ [frame_of f]) =
          (acc @ [frame_of f]) @ (if rest @ resolved rt cl' = [] then [zero_frame]
            else map frame_of (rest @ resolved rt cl'))"
        using "1.hyps" [OF nx [symmetric] refl refl]
        by (simp add: frame_of_def new_frame_def zero_frame_def zero_Frame_def)
      from all \<open>fs' = f # rest\<close> have "buf @ resolved rt cl = f # (rest @ resolved rt cl')"
        by simp
      moreover from Cons have "rest @ resolved rt cl' \<noteq> []" by simp
      ultimately show ?thesis
        using nx ih by (subst frames_loop.simps) (simp add: frame_of_def new_frame_def zero_frame_def zero_Frame_def)
    qed
  qed
qed

lemma frames_loop_CallersFrames:
  "frames_loop rt (CallersFrames pcs) [] =
     (if resolved rt pcs = [] then [zero_frame] else map frame_of (resolved rt pcs))"
  using frames_loop_eq [of rt pcs "[]" "[]"] by (simp add: CallersFrames_def)

lemma copy_pcs_eq:
  "i + length st \<le> length pcs \<Longrightarrow> copy_pcs st i pcs = take i pcs @ st @ drop (i + length st) pcs"
proof (induction st arbitrary: i pcs)
  case Nil
  then show ?case by simp
next
  case (Cons v st)
  then have "copy_pcs st (i + 1) (pcs[i := v]) =
      take (i + 1) (pcs[i := v]) @ st @ drop (i + 1 + length st) (pcs[i := v])"
    by (intro Cons.IH) simp
  moreover from Cons.prems have "take (i + 1) (pcs[i := v]) = take i pcs @ [v]"
    by (simp add: take_Suc_conv_app_nth)
  ultimately show ?case by simp
qed

lemma copy_pcs_all: "copy_pcs st 0 (replicate (length st) 0) = st"
  by (simp add: copy_pcs_eq)

lemma CallStackFromPkgErrors_eq:
  "CallStackFromPkgErrors rt st =
     Stack (if resolved rt st = [] then [zero_frame] else map frame_of (resolved rt st))"
  by (simp add: CallStackFromPkgErrors_def copy_pcs_all frames_loop_CallersFrames)

lemma runtime_Callers_eq:
  assumes "runtime_Callers rt k (replicate 32 0) = (n, pcs)"
  shows "n = length (take 32 (drop (nat k) (stack rt)))"
    and "take n pcs = take 32 (drop (nat k) (stack rt))"
proof -
  define w where "w = take 32 (drop (nat k) (stack rt))"
  from assms have "n = length w" and "pcs = w @ drop (length w) (replicate 32 0)"
    by (auto simp: runtime_Callers_def Let_def w_def)
  then show "n = length (take 32 (drop (nat k) (stack rt)))"
    and "take n pcs = take 32 (drop (nat k) (stack rt))"
    by (simp_all add: w_def [symmetric])
qed

lemma Callers_eq:
  "Callers rt skip =
     (if captured rt skip = [] then NilStack
      else Stack (if resolved rt (captured rt skip) = [] then [zero_frame]
                  else map frame_of (resolved rt (captured rt skip))))"
proof -
  obtain n pcs where rc: "runtime_Callers rt (sint (skip + 2)) (replicate 32 0) = (n, pcs)"
    by (cases "runtime_Callers rt (sint (skip + 2)) (replicate 32 0)")
  from runtime_Callers_eq [OF rc] have "n = length (captured rt skip)" and "take n pcs = captured rt skip"
    unfolding captured_def by blast+
  with rc show ?thesis
    by (simp add: Callers_def frames_loop_CallersFrames)
qed


lemma resolved_single:
  "\<forall>pc\<in>set pcs. length (symtab rt pc) = 1 \<Longrightarrow> resolved rt pcs = map (\<lambda>pc. hd (symtab rt pc)) pcs"
proof (induction pcs)
  case Nil
  show ?case by (simp add: resolved_def)
next
  case (Cons pc pcs)
  then have "length (symtab rt pc) = 1" by simp
  then have "symtab rt pc = [hd (symtab rt pc)]"
    by (cases "symtab rt pc") simp_all
  with Cons show ?case by (simp add: resolved_def)
qed

lemma frames_single:
  "\<forall>pc\<in>set pcs. length (symtab rt pc) = 1 \<Longrightarrow> map frame_of (resolved rt pcs) = map (frame_at rt) pcs"
  by (simp add: resolved_single frame_at_def)

lemma set_captured: "set (captured rt skip) \<subseteq> set (stack rt)"
  unfolding captured_def
  using set_take_subset [of 32 "drop (nat (sint (skip + 2))) (stack rt)"]
    set_drop_subset [of "nat (sint (skip + 2))" "stack rt"]
  by blast

lemma captured_nth:
  assumes "i < length (captured rt skip)"
  shows "captured rt skip ! i = stack rt ! (nat (sint (skip + 2)) + i)"
proof -
  from assms have "i < 32" and "nat (sint (skip + 2)) \<le> length (stack rt)"
    by (auto simp: captured_def)
  then show ?thesis by (simp add: captured_def)
qed

lemma Callers_resolved:
  "resolved rt (captured rt skip) \<noteq> [] \<Longrightarrow>
     Callers rt skip = Stack (map frame_of (resolved rt (captured rt skip)))"
  by (auto simp: Callers_eq resolved_Nil)

lemma Callers_single:
  assumes "\<forall>pc\<in>set (stack rt). length (symtab rt pc) = 1"
  shows "elems (Callers rt skip) = map (frame_at rt) (captured rt skip)"
proof -
  from assms set_captured [of rt skip] have one: "\<forall>pc\<in>set (captured rt skip). length (symtab rt pc) = 1"
    by blast
  show ?thesis
  proof (cases "captured rt skip = []")
    case True
    then show ?thesis by (simp add: Callers_eq)
  next
    case False
    with resolved_single [OF one] have "resolved rt (captured rt skip) \<noteq> []" by simp
    from Callers_resolved [OF this] frames_single [OF one] show ?thesis by simp
  qed
qed

lemma FromPkgErrors_single:
  assumes "\<forall>pc\<in>set st. length (symtab rt pc) = 1" and "st \<noteq> []"
  shows "elems (CallStackFromPkgErrors rt st) = map (frame_at rt) st"
proof -
  from assms resolved_single [OF assms(1)] have "resolved rt st \<noteq> []" by simp
  with frames_single [OF assms(1)] show ?thesis by (simp add: CallStackFromPkgErrors_eq)
qed

text \<open>
  Claim C2 calls the result of every capture innermost-first. In the sample
  goroutine \<^verbatim>\<open>main.main\<close> (address 4) called \<^verbatim>\<open>main.GetACL\<close> (address 3);
  for the stack trace that lists them outermost first,
  \<open>CallStackFromPkgErrors\<close> returns \<^verbatim>\<open>main.main\<close> at index 0 and its callee at
  index 1. And for the empty stack trace, index 0 holds the zero-valued frame,
  the frame of no function.
\<close>

theorem foreign_trace_order_kept:
  "stack sample_runtime = [1, 2, 3, 4]
   \<and> CallStackFromPkgErrors sample_runtime [4, 3] =
       Stack [StructFrame \<lparr>file' = ''/src/app/main.go'', line = 47, function' = ''main.main''\<rparr>,
              StructFrame \<lparr>file' = ''/src/app/main.go'', line = 21, function' = ''main.GetACL''\<rparr>]
   \<and> CallStackFromPkgErrors sample_runtime [] =
       Stack [StructFrame \<lparr>file' = [], line = 0, function' = []\<rparr>]"
proof -
  have "resolved sample_runtime [4, 3] =
      [\<lparr>Frame_File = ''/src/app/main.go'', Frame_Line = 47, Frame_Function = ''main.main''\<rparr>,
       \<lparr>Frame_File = ''/src/app/main.go'', Frame_Line = 21, Frame_Function = ''main.GetACL''\<rparr>]"
    by (simp add: resolved_def sample_runtime_def sample_symtab_def)
  then show ?thesis
    by (simp add: CallStackFromPkgErrors_eq resolved_Nil frame_of_def zero_frame_def sample_runtime_def)
qed

text \<open>
  Claim C2, amended. \<open>Callers\<close> returns the frames innermost-first: whenever a
  captured address resolves, the CallStack is the list of the frames that the
  captured stack entries stand for, in the order of the stack, and when every
  stack entry stands for one frame, every entry \<open>i\<close> of the CallStack is the
  frame of the stack entry \<open>i\<close> levels outward of the first captured one.
  \<open>CallStackFromPkgErrors\<close> keeps the order of the stack trace it is given:
  whenever an address of the trace resolves, the CallStack is the list of the
  frames the trace stands for, in the order of the trace; so it is
  innermost-first when the trace is, that is, when the trace is a run of the
  goroutine's stack: then every entry \<open>i\<close> is the frame of the stack entry \<open>i\<close>
  levels outward of the first.
\<close>

theorem captures_keep_order:
  "(resolved rt (captured rt skip) \<noteq> [] \<longrightarrow>
      elems (Callers rt skip) = map frame_of (resolved rt (captured rt skip)))
   \<and> (resolved rt st \<noteq> [] \<longrightarrow>
      elems (CallStackFromPkgErrors rt st) = map frame_of (resolved rt st))
   \<and> ((\<forall>pc\<in>set (stack rt). length (symtab rt pc) = 1) \<longrightarrow>
        (\<forall>i < length (elems (Callers rt skip)).
            elems (Callers rt skip) ! i = frame_at rt (stack rt ! (nat (sint (skip + 2)) + i))))
   \<and> ((\<forall>pc\<in>set st. length (symtab rt pc) = 1) \<and> st \<noteq> [] \<and> st = take n (drop k (stack rt)) \<longrightarrow>
        (\<forall>i < length (elems (CallStackFromPkgErrors rt st)).
            elems (CallStackFromPkgErrors rt st) ! i = frame_at rt (stack rt ! (k + i))))"
proof (intro conjI impI allI)
  assume "resolved rt (captured rt skip) \<noteq> []"
  from Callers_resolved [OF this]
  show "elems (Callers rt skip) = map frame_of (resolved rt (captured rt skip))" by simp
next
  assume "resolved rt st \<noteq> []"
  then show "elems (CallStackFromPkgErrors rt st) = map frame_of (resolved rt st)"
    by (simp add: CallStackFromPkgErrors_eq)
next
  fix i
  assume one: "\<forall>pc\<in>set (stack rt). length (symtab rt pc) = 1"
    and i: "i < length (elems (Callers rt skip))"
  from Callers_single [OF one] have e: "elems (Callers rt skip) = map (frame_at rt) (captured rt skip)" .
  with i have "i < length (captured rt skip)" by simp
  with e captured_nth [OF this]
  show "elems (Callers rt skip) ! i = frame_at rt (stack rt ! (nat (sint (skip + 2)) + i))"
    by simp
next
  fix i
  assume a: "(\<forall>pc\<in>set st. length (symtab rt pc) = 1) \<and> st \<noteq> [] \<and> st = take n (drop k (stack rt))"
    and i: "i < length (elems (CallStackFromPkgErrors rt st))"
  from a have one: "\<forall>pc\<in>set st. length (symtab rt pc) = 1" and ne: "st \<noteq> []"
    and st: "st = take n (drop k (stack rt))"
    by blast+
  from FromPkgErrors_single [OF one ne]
  have e: "elems (CallStackFromPkgErrors rt st) = map (frame_at rt) st" .
  with i have i': "i < length st" by simp
  have "k \<le> length (stack rt)"
  proof (rule ccontr)
    assume "\<not> k \<le> length (stack rt)"
    then have "take n (drop k (stack rt)) = []" by simp
    with ne st show False by simp
  qed
  with i' st have "st ! i = stack rt ! (k + i)" by simp
  with e i' show "elems (CallStackFromPkgErrors rt st) ! i = frame_at rt (stack rt ! (k + i))"
    by simp
qed

lemma sample_single: "\<forall>pc\<in>set (stack sample_runtime). length (symtab sample_runtime pc) = 1"
  by (simp add: sample_runtime_def sample_symtab_def)

lemma sample_stack: "stack sample_runtime = [1, 2, 3, 4]"
  by (simp add: sample_runtime_def)

lemma sample_frame_at:
  "frame_at sample_runtime 1 = frame_runtime_Callers" "frame_at sample_runtime 2 = frame_Callers"
  "frame_at sample_runtime 3 = frame_GetACL" "frame_at sample_runtime 4 = frame_main"
  by (simp_all add: frame_at_def frame_of_def sample_runtime_def sample_symtab_def
      frame_runtime_Callers_def frame_Callers_def frame_GetACL_def frame_main_def)

lemma sample_Callers_0: "Callers sample_runtime 0 = Stack [frame_GetACL, frame_main]"
proof -
  have "captured sample_runtime 0 = [3, 4]"
    by (simp add: captured_def sample_runtime_def)
  moreover have "resolved sample_runtime [3, 4] \<noteq> []"
    by (simp add: resolved_def sample_runtime_def sample_symtab_def)
  ultimately have "Callers sample_runtime 0 = Stack (map frame_of (resolved sample_runtime [3, 4]))"
    using Callers_resolved [of sample_runtime 0] by simp
  also have "map frame_of (resolved sample_runtime [3, 4]) = [frame_GetACL, frame_main]"
    by (simp add: resolved_def frame_of_def sample_runtime_def sample_symtab_def
        frame_GetACL_def frame_main_def)
  finally show ?thesis .
qed

theorem captures_keep_order_witness:
  "elems (Callers sample_runtime 0) ! 0 = frame_GetACL
   \<and> elems (Callers sample_runtime 0) ! 1 = frame_main
   \<and> elems (CallStackFromPkgErrors sample_runtime [3, 4]) ! 0 = frame_GetACL
   \<and> elems (CallStackFromPkgErrors sample_runtime [3, 4]) ! 1 = frame_main
   \<and> length (elems (CallStackFromPkgErrors sample_runtime [3, 4])) = 2"
proof -
  note inst = captures_keep_order [of sample_runtime 0 "[3, 4]" 2 2]
  have st: "(\<forall>pc\<in>set [3, 4 :: uintptr]. length (symtab sample_runtime pc) = 1) \<and> [3, 4 :: uintptr] \<noteq> []
      \<and> [3, 4] = take 2 (drop 2 (stack sample_runtime))"
    by (simp add: sample_runtime_def sample_symtab_def)
  have r: "resolved sample_runtime [3, 4] \<noteq> []"
    by (simp add: resolved_def sample_runtime_def sample_symtab_def)
  from inst sample_single
  have c: "\<forall>i < length (elems (Callers sample_runtime 0)).
      elems (Callers sample_runtime 0) ! i
        = frame_at sample_runtime (stack sample_runtime ! (nat (sint (0 + 2 :: go_int)) + i))"
    by blast
  from inst st
  have p: "\<forall>i < length (elems (CallStackFromPkgErrors sample_runtime [3, 4])).
      elems (CallStackFromPkgErrors sample_runtime [3, 4]) ! i = frame_at sample_runtime (stack sample_runtime ! (2 + i))"
    by blast
  from inst r
  have l: "elems (CallStackFromPkgErrors sample_runtime [3, 4]) = map frame_of (resolved sample_runtime [3, 4])"
    by blast
  have l2: "length (resolved sample_runtime [3, 4]) = 2"
    by (simp add: resolved_def sample_runtime_def sample_symtab_def)
  have lc: "length (elems (Callers sample_runtime 0)) = 2"
    by (simp add: sample_Callers_0)
  have "elems (Callers sample_runtime 0) ! 0 = frame_GetACL"
    and "elems (Callers sample_runtime 0) ! 1 = frame_main"
    using c [rule_format, of 0] c [rule_format, of 1] lc sample_stack
    by (simp_all add: sample_frame_at)
  moreover have "elems (CallStackFromPkgErrors sample_runtime [3, 4]) ! 0 = frame_GetACL"
    and "elems (CallStackFromPkgErrors sample_runtime [3, 4]) ! 1 = frame_main"
    using p [rule_format, of 0] p [rule_format, of 1] l l2 sample_stack
    by (simp_all add: sample_frame_at)
  moreover from l l2 have "length (elems (CallStackFromPkgErrors sample_runtime [3, 4])) = 2" by simp
  ultimately show ?thesis by simp
qed

subsection \<open>The degenerate captures\<close>

lemma frames_loop_longer: "length cs < length (frames_loop rt fs cs)"
  by (cases fs) (simp add: frames_loop_eq)

lemma captured_Nil_iff: "captured rt skip = [] \<longleftrightarrow> length (stack rt) \<le> nat (sint (skip + 2))"
  by (simp add: captured_def)

lemma Callers_nil:
  "length (stack rt) \<le> nat (sint (skip + 2)) \<Longrightarrow> Callers rt skip = NilStack"
  by (simp add: Callers_eq captured_Nil_iff)

lemma Callers_nonempty:
  "nat (sint (skip + 2)) < length (stack rt) \<Longrightarrow> \<exists>fs. Callers rt skip = Stack fs \<and> fs \<noteq> []"
  by (auto simp: Callers_eq captured_Nil_iff)

lemma Callers_nil_count:
  assumes "fst (runtime_Callers rt (sint (skip + 2)) (replicate 32 0)) = 0"
  shows "Callers rt skip = NilStack"
proof -
  obtain n pcs where rc: "runtime_Callers rt (sint (skip + 2)) (replicate 32 0) = (n, pcs)"
    by (cases "runtime_Callers rt (sint (skip + 2)) (replicate 32 0)")
  with assms have "n = 0" by simp
  with rc show ?thesis by (simp add: Callers_def)
qed

lemma resolved_Nil_iff:
  "\<forall>pc\<in>set pcs. symtab rt pc \<noteq> [] \<Longrightarrow> resolved rt pcs = [] \<longleftrightarrow> pcs = []"
  by (cases pcs) (simp_all add: resolved_def)

lemma Callers_nil_iff_unresolved:
  assumes "\<forall>pc\<in>set (stack rt). symtab rt pc \<noteq> []"
  shows "resolved rt (captured rt skip) = [] \<longleftrightarrow> Callers rt skip = NilStack"
proof -
  from assms set_captured [of rt skip] have "\<forall>pc\<in>set (captured rt skip). symtab rt pc \<noteq> []"
    by blast
  from resolved_Nil_iff [OF this] show ?thesis
    by (simp add: Callers_eq)
qed

lemma Callers_not_empty_slice: "Callers rt skip \<noteq> Stack []"
  by (auto simp: Callers_eq)

text \<open>
  Claim C10. \<open>CallStackFromPkgErrors\<close> never returns an empty CallStack: its
  loop appends a frame before it tests the continuation flag, so the result is
  a non-nil slice with at least one frame for every input, and for the empty
  stack trace it is one zero-valued frame. \<open>Callers\<close> differs: it returns the
  nil CallStack when \<^verbatim>\<open>runtime.Callers\<close> reports no address (its test
  \<^verbatim>\<open>n == 0\<close>), which on a runtime whose stack addresses all resolve is the
  case whenever no frame resolves.
\<close>

theorem CallStackFromPkgErrors_never_empty:
  "(\<exists>fs. CallStackFromPkgErrors rt st = Stack fs \<and> 1 \<le> length fs)
   \<and> length cs < length (frames_loop rt ci cs)
   \<and> CallStackFromPkgErrors rt [] = Stack [StructFrame \<lparr>file' = [], line = 0, function' = []\<rparr>]
   \<and> (fst (runtime_Callers rt (sint (skip + 2)) (replicate 32 0)) = 0 \<longrightarrow> Callers rt skip = NilStack)
   \<and> ((\<forall>pc\<in>set (stack rt). symtab rt pc \<noteq> []) \<and> resolved rt (captured rt skip) = [] \<longrightarrow>
        Callers rt skip = NilStack)"
proof (intro conjI impI)
  show "\<exists>fs. CallStackFromPkgErrors rt st = Stack fs \<and> 1 \<le> length fs"
    using frames_loop_longer [of "[]" rt "CallersFrames (copy_pcs st 0 (replicate (length st) 0))"]
    by (simp add: CallStackFromPkgErrors_def Suc_le_eq)
next
  show "length cs < length (frames_loop rt ci cs)" by (rule frames_loop_longer)
next
  show "CallStackFromPkgErrors rt [] = Stack [StructFrame \<lparr>file' = [], line = 0, function' = []\<rparr>]"
    by (simp add: CallStackFromPkgErrors_eq resolved_Nil zero_frame_def)
next
  assume "fst (runtime_Callers rt (sint (skip + 2)) (replicate 32 0)) = 0"
  then show "Callers rt skip = NilStack" by (rule Callers_nil_count)
next
  assume "(\<forall>pc\<in>set (stack rt). symtab rt pc \<noteq> []) \<and> resolved rt (captured rt skip) = []"
  then show "Callers rt skip = NilStack"
    using Callers_nil_iff_unresolved [of rt skip] by blast
qed

theorem CallStackFromPkgErrors_never_empty_witness:
  "fst (runtime_Callers sample_runtime (sint (2 + 2 :: go_int)) (replicate 32 0)) = 0
   \<and> resolved sample_runtime (captured sample_runtime 2) = []
   \<and> Callers sample_runtime 2 = NilStack
   \<and> (\<exists>fs. CallStackFromPkgErrors sample_runtime [3, 4] = Stack fs \<and> 1 \<le> length fs)
   \<and> CallStackFromPkgErrors sample_runtime [] = Stack [StructFrame \<lparr>file' = [], line = 0, function' = []\<rparr>]"
proof -
  have z: "fst (runtime_Callers sample_runtime (sint (2 + 2 :: go_int)) (replicate 32 0)) = 0"
    by (simp add: runtime_Callers_def sample_runtime_def)
  have r: "resolved sample_runtime (captured sample_runtime 2) = []"
    by (simp add: captured_def resolved_def sample_runtime_def)
  from CallStackFromPkgErrors_never_empty [where rt = sample_runtime and st = "[3, 4]" and skip = 2] z r
  show ?thesis by blast
qed

text \<open>
  Claim C5 at the empty stack trace. The trace has no address, so no frame is
  resolved from it; \<open>CallStackFromPkgErrors\<close> nevertheless returns one frame,
  the zero-valued one, which is the frame of none of the addresses. \<open>Callers\<close>
  guards against this with \<^verbatim>\<open>if n == 0 { return nil }\<close>;
  \<open>CallStackFromPkgErrors\<close> has no such guard. (For a trace of which at least
  one address resolves, \<open>CallStackFromPkgErrors_eq\<close> gives the resolved frames
  in the order of the trace.)
\<close>

theorem CallStackFromPkgErrors_empty_trace:
  "resolved rt [] = []
   \<and> CallStackFromPkgErrors rt [] = Stack [StructFrame \<lparr>file' = [], line = 0, function' = []\<rparr>]
   \<and> elems (CallStackFromPkgErrors rt []) \<noteq> map frame_of (resolved rt [])"
  by (simp add: CallStackFromPkgErrors_eq resolved_Nil zero_frame_def)

text \<open>
  Claim C1 speaks of an empty CallStack that is not absent. In the sample
  goroutine \<^verbatim>\<open>Callers(2)\<close> starts above \<^verbatim>\<open>main.main\<close>: the runtime reports no
  address, and the result is the nil slice, not an empty non-nil one.
\<close>

theorem Callers_zero_frames_not_empty_slice:
  "fst (runtime_Callers sample_runtime (sint (2 + 2 :: go_int)) (replicate 32 0)) = 0
   \<and> Callers sample_runtime 2 = NilStack
   \<and> Callers sample_runtime 2 \<noteq> Stack []"
proof -
  have "fst (runtime_Callers sample_runtime (sint (2 + 2 :: go_int)) (replicate 32 0)) = 0"
    by (simp add: runtime_Callers_def sample_runtime_def)
  moreover have "Callers sample_runtime 2 = NilStack"
    by (rule Callers_nil) (simp add: sample_runtime_def)
  ultimately show ?thesis by simp
qed

text \<open>
  Claim C1, amended. \<^verbatim>\<open>runtime.Callers\<close> reports no address exactly when the
  stack has no entry past the skipped ones. Then, for every \<open>skip\<close>, \<open>Callers\<close>
  returns the nil CallStack: a value of length 0 with no frame, which is absent
  (nil) rather than an empty non-nil slice. Whenever an address is reported
  the result is a non-nil CallStack with at least one frame; so \<open>Callers\<close>
  never returns an empty non-nil CallStack. On a runtime whose stack addresses
  all resolve, the result is nil exactly when no frame resolves. There is no
  error result.
\<close>

theorem Callers_zero_frames_nil:
  "(fst (runtime_Callers rt (sint (skip + 2)) (replicate 32 0)) = 0
      \<longleftrightarrow> length (stack rt) \<le> nat (sint (skip + 2)))
   \<and> (length (stack rt) \<le> nat (sint (skip + 2)) \<longrightarrow>
        Callers rt skip = NilStack \<and> len (Callers rt skip) = 0 \<and> elems (Callers rt skip) = [])
   \<and> (nat (sint (skip + 2)) < length (stack rt) \<longrightarrow> (\<exists>fs. Callers rt skip = Stack fs \<and> fs \<noteq> []))
   \<and> ((\<forall>pc\<in>set (stack rt). symtab rt pc \<noteq> []) \<longrightarrow>
        (resolved rt (captured rt skip) = [] \<longleftrightarrow> Callers rt skip = NilStack))
   \<and> Callers rt skip \<noteq> Stack []"
proof (intro conjI impI)
  obtain n pcs where rc: "runtime_Callers rt (sint (skip + 2)) (replicate 32 0) = (n, pcs)"
    by (cases "runtime_Callers rt (sint (skip + 2)) (replicate 32 0)")
  from runtime_Callers_eq(1) [OF rc] rc
  show "fst (runtime_Callers rt (sint (skip + 2)) (replicate 32 0)) = 0
      \<longleftrightarrow> length (stack rt) \<le> nat (sint (skip + 2))"
    by (auto simp: min_def)
next
  assume a: "length (stack rt) \<le> nat (sint (skip + 2))"
  from Callers_nil [OF a] show "Callers rt skip = NilStack" .
  then show "len (Callers rt skip) = 0" and "elems (Callers rt skip) = []"
    by (simp_all add: len_def)
next
  assume "nat (sint (skip + 2)) < length (stack rt)"
  then show "\<exists>fs. Callers rt skip = Stack fs \<and> fs \<noteq> []" by (rule Callers_nonempty)
next
  assume "\<forall>pc\<in>set (stack rt). symtab rt pc \<noteq> []"
  then show "resolved rt (captured rt skip) = [] \<longleftrightarrow> Callers rt skip = NilStack"
    by (rule Callers_nil_iff_unresolved)
next
  show "Callers rt skip \<noteq> Stack []" by (rule Callers_not_empty_slice)
qed

theorem Callers_zero_frames_nil_witness:
  "length (stack sample_runtime) \<le> nat (sint (3 + 2 :: go_int))
   \<and> Callers sample_runtime 3 = NilStack \<and> len (Callers sample_runtime 3) = 0
   \<and> elems (Callers sample_runtime 3) = []
   \<and> resolved sample_runtime (captured sample_runtime 3) = []
   \<and> nat (sint (0 + 2 :: go_int)) < length (stack sample_runtime)
   \<and> (\<exists>fs. Callers sample_runtime 0 = Stack fs \<and> fs \<noteq> [])"
proof -
  have z: "length (stack sample_runtime) \<le> nat (sint (3 + 2 :: go_int))"
    and p: "nat (sint (0 + 2 :: go_int)) < length (stack sample_runtime)"
    and w: "\<forall>pc\<in>set (stack sample_runtime). symtab sample_runtime pc \<noteq> []"
    by (simp_all add: sample_runtime_def sample_symtab_def)
  from Callers_zero_frames_nil [where rt = sample_runtime and skip = 3] z
  have n: "Callers sample_runtime 3 = NilStack \<and> len (Callers sample_runtime 3) = 0
      \<and> elems (Callers sample_runtime 3) = []"
    by blast
  from Callers_zero_frames_nil [where rt = sample_runtime and skip = 3] w n
  have r: "resolved sample_runtime (captured sample_runtime 3) = []" by blast
  from Callers_zero_frames_nil [where rt = sample_runtime and skip = 0] p
  have "\<exists>fs. Callers sample_runtime 0 = Stack fs \<and> fs \<noteq> []" by blast
  with n r z p show ?thesis by blast
qed

subsection \<open>The bound and the skip\<close>

lemma skip_plus_2:
  assumes "0 \<le> sint (skip :: go_int)" and "sint skip \<le> 2 ^ 63 - 3"
  shows "sint (skip + 2) = sint skip + 2"
proof -
  have "sint (skip + 2) = signed_take_bit 63 (sint skip + sint (2 :: go_int))"
    by (simp add: sint_word_add)
  also have "sint (2 :: go_int) = 2" by simp
  also from assms have "signed_take_bit 63 (sint skip + 2) = sint skip + 2"
    by (intro signed_take_bit_int_eq_self) simp_all
  finally show ?thesis .
qed

lemma captured_in_range:
  assumes "0 \<le> sint skip" and "sint skip \<le> 2 ^ 63 - 3"
  shows "captured rt skip = take 32 (drop (nat (sint skip) + 2) (stack rt))"
  using assms by (simp add: captured_def skip_plus_2 nat_add_distrib)

lemma runtime_Callers_captured:
  "runtime_Callers rt (sint (skip + 2)) (replicate 32 0) = (n, pcs) \<Longrightarrow>
     n = length (captured rt skip) \<and> take n pcs = captured rt skip"
  using runtime_Callers_eq [of rt "sint (skip + 2)" n pcs] by (simp add: captured_def)

lemma length_captured: "length (captured rt skip) \<le> 32"
  by (simp add: captured_def)

text \<open>
  Claim C3. \<open>Callers\<close> hands the runtime a buffer of 32 addresses: the runtime
  writes at most 32, the first 32 at most of the stack past the skipped
  entries. With one frame per address the CallStack holds the frames of
  exactly those addresses, 32 at most. Whenever an address is left the
  result is a non-nil CallStack, and when fewer than 32 addresses are left and
  they resolve to some frame, it is the CallStack of all their frames: a
  shorter stack, not an error.
\<close>

theorem Callers_bounded:
  "(case runtime_Callers rt (sint (skip + 2)) (replicate 32 0) of
      (n, pcs) \<Rightarrow> n \<le> 32 \<and> take n pcs = take 32 (drop (nat (sint (skip + 2))) (stack rt)))
   \<and> ((\<forall>pc\<in>set (stack rt). length (symtab rt pc) = 1) \<longrightarrow>
        elems (Callers rt skip) = map (frame_at rt) (take 32 (drop (nat (sint (skip + 2))) (stack rt)))
        \<and> length (elems (Callers rt skip)) \<le> 32)
   \<and> (nat (sint (skip + 2)) < length (stack rt) \<longrightarrow> (\<exists>fs. Callers rt skip = Stack fs \<and> fs \<noteq> []))
   \<and> (length (drop (nat (sint (skip + 2))) (stack rt)) < 32
        \<and> resolved rt (drop (nat (sint (skip + 2))) (stack rt)) \<noteq> [] \<longrightarrow>
        Callers rt skip = Stack (map frame_of (resolved rt (drop (nat (sint (skip + 2))) (stack rt)))))"
proof (intro conjI impI)
  obtain n pcs where rc: "runtime_Callers rt (sint (skip + 2)) (replicate 32 0) = (n, pcs)"
    by (cases "runtime_Callers rt (sint (skip + 2)) (replicate 32 0)")
  from runtime_Callers_captured [OF rc] length_captured [of rt skip]
  have "n \<le> 32" and "take n pcs = take 32 (drop (nat (sint (skip + 2))) (stack rt))"
    by (auto simp: captured_def)
  with rc
  show "case runtime_Callers rt (sint (skip + 2)) (replicate 32 0) of
      (n, pcs) \<Rightarrow> n \<le> 32 \<and> take n pcs = take 32 (drop (nat (sint (skip + 2))) (stack rt))"
    by simp
next
  assume one: "\<forall>pc\<in>set (stack rt). length (symtab rt pc) = 1"
  from Callers_single [OF one, of skip]
  show e: "elems (Callers rt skip) = map (frame_at rt) (take 32 (drop (nat (sint (skip + 2))) (stack rt)))"
    by (simp add: captured_def)
  then show "length (elems (Callers rt skip)) \<le> 32" by simp
next
  assume "nat (sint (skip + 2)) < length (stack rt)"
  then show "\<exists>fs. Callers rt skip = Stack fs \<and> fs \<noteq> []" by (rule Callers_nonempty)
next
  assume a: "length (drop (nat (sint (skip + 2))) (stack rt)) < 32
        \<and> resolved rt (drop (nat (sint (skip + 2))) (stack rt)) \<noteq> []"
  then have "captured rt skip = drop (nat (sint (skip + 2))) (stack rt)"
    by (simp add: captured_def)
  with a Callers_resolved [of rt skip]
  show "Callers rt skip = Stack (map frame_of (resolved rt (drop (nat (sint (skip + 2))) (stack rt))))"
    by simp
qed

theorem Callers_bounded_witness:
  "length (stack deep_runtime) = 42
   \<and> elems (Callers deep_runtime 0) = replicate 32 frame_GetACL
   \<and> length (elems (Callers deep_runtime 0)) \<le> 32
   \<and> Callers sample_runtime 0 = Stack [frame_GetACL, frame_main]"
proof -
  have d: "\<forall>pc\<in>set (stack deep_runtime). length (symtab deep_runtime pc) = 1"
    by (simp add: deep_runtime_def sample_symtab_def)
  have l: "length (stack deep_runtime) = 42"
    by (simp add: deep_runtime_def)
  have t: "take 32 (drop (nat (sint (0 + 2 :: go_int))) (stack deep_runtime)) = replicate 32 3"
    by (simp add: deep_runtime_def)
  have f: "frame_at deep_runtime 3 = frame_GetACL"
    by (simp add: frame_at_def frame_of_def deep_runtime_def sample_symtab_def frame_GetACL_def)
  from Callers_bounded [where rt = deep_runtime and skip = 0] d
  have "elems (Callers deep_runtime 0)
      = map (frame_at deep_runtime) (take 32 (drop (nat (sint (0 + 2 :: go_int))) (stack deep_runtime)))"
    and le: "length (elems (Callers deep_runtime 0)) \<le> 32"
    by blast+
  with t f have e: "elems (Callers deep_runtime 0) = replicate 32 frame_GetACL"
    by simp
  have s: "length (drop (nat (sint (0 + 2 :: go_int))) (stack sample_runtime)) < 32
        \<and> resolved sample_runtime (drop (nat (sint (0 + 2 :: go_int))) (stack sample_runtime)) \<noteq> []"
    by (simp add: sample_runtime_def resolved_def sample_symtab_def)
  have r: "map frame_of (resolved sample_runtime (drop (nat (sint (0 + 2 :: go_int))) (stack sample_runtime)))
      = [frame_GetACL, frame_main]"
    by (simp add: sample_runtime_def resolved_def sample_symtab_def frame_of_def frame_GetACL_def frame_main_def)
  from Callers_bounded [where rt = sample_runtime and skip = 0] s
  have "Callers sample_runtime 0
      = Stack (map frame_of (resolved sample_runtime (drop (nat (sint (0 + 2 :: go_int))) (stack sample_runtime))))"
    by blast
  with r have "Callers sample_runtime 0 = Stack [frame_GetACL, frame_main]" by simp
  with l e le show ?thesis by blast
qed

text \<open>
  Claim C4, amended. For every \<open>skip\<close> from 0 to \<open>2^63 - 3\<close>, the sum
  \<^verbatim>\<open>skip+2\<close> does not wrap, and \<open>Callers(skip)\<close> captures the stack from entry
  \<open>skip + 2\<close> on: it omits the frame of \<^verbatim>\<open>runtime.Callers\<close>, its own frame and
  \<open>skip\<close> more. The result is nil when the stack ends before that entry;
  otherwise its frames are those of the entries from \<open>skip + 2\<close> on (32 at
  most), and its first frame is the frame of entry \<open>skip + 2\<close>, the call site
  \<open>skip\<close> levels above the caller of \<open>Callers\<close>.
\<close>

theorem Callers_skips_own_frames:
  assumes "0 \<le> sint skip" and "sint skip \<le> 2 ^ 63 - 3"
  shows "sint (skip + 2) = sint skip + 2
    \<and> (length (stack rt) \<le> nat (sint skip) + 2 \<longrightarrow> Callers rt skip = NilStack)
    \<and> (resolved rt (take 32 (drop (nat (sint skip) + 2) (stack rt))) \<noteq> [] \<longrightarrow>
         elems (Callers rt skip) = map frame_of (resolved rt (take 32 (drop (nat (sint skip) + 2) (stack rt)))))
    \<and> ((\<forall>pc\<in>set (stack rt). length (symtab rt pc) = 1) \<longrightarrow>
         elems (Callers rt skip) = map (frame_at rt) (take 32 (drop (nat (sint skip) + 2) (stack rt))))
    \<and> ((\<forall>pc\<in>set (stack rt). length (symtab rt pc) = 1) \<and> nat (sint skip) + 2 < length (stack rt) \<longrightarrow>
         elems (Callers rt skip) ! 0 = frame_at rt (stack rt ! (nat (sint skip) + 2)))"
proof -
  have p: "sint (skip + 2) = sint skip + 2" using assms by (rule skip_plus_2)
  have c: "captured rt skip = take 32 (drop (nat (sint skip) + 2) (stack rt))"
    using assms by (rule captured_in_range)
  have n: "nat (sint (skip + 2)) = nat (sint skip) + 2"
    using assms p by (simp add: nat_add_distrib)
  have a: "length (stack rt) \<le> nat (sint skip) + 2 \<longrightarrow> Callers rt skip = NilStack"
    using Callers_nil [of rt skip] n by simp
  have b: "resolved rt (take 32 (drop (nat (sint skip) + 2) (stack rt))) \<noteq> [] \<longrightarrow>
         elems (Callers rt skip) = map frame_of (resolved rt (take 32 (drop (nat (sint skip) + 2) (stack rt))))"
    using Callers_resolved [of rt skip] c by simp
  have d: "(\<forall>pc\<in>set (stack rt). length (symtab rt pc) = 1) \<longrightarrow>
         elems (Callers rt skip) = map (frame_at rt) (take 32 (drop (nat (sint skip) + 2) (stack rt)))"
    using Callers_single [of rt skip] c by simp
  have e: "(\<forall>pc\<in>set (stack rt). length (symtab rt pc) = 1) \<and> nat (sint skip) + 2 < length (stack rt) \<longrightarrow>
         elems (Callers rt skip) ! 0 = frame_at rt (stack rt ! (nat (sint skip) + 2))"
  proof
    assume h: "(\<forall>pc\<in>set (stack rt). length (symtab rt pc) = 1) \<and> nat (sint skip) + 2 < length (stack rt)"
    with d have el: "elems (Callers rt skip) = map (frame_at rt) (take 32 (drop (nat (sint skip) + 2) (stack rt)))"
      by blast
    from h have "0 < length (take 32 (drop (nat (sint skip) + 2) (stack rt)))" by simp
    with el h show "elems (Callers rt skip) ! 0 = frame_at rt (stack rt ! (nat (sint skip) + 2))"
      by (simp add: nth_map)
  qed
  from p a b d e show ?thesis by blast
qed

theorem Callers_skips_own_frames_witness:
  "Callers sample_runtime 0 = Stack [frame_GetACL, frame_main]
   \<and> Callers sample_runtime 1 = Stack [frame_main]
   \<and> Callers sample_runtime 2 = NilStack
   \<and> elems (Callers sample_runtime 0) ! 0 = frame_at sample_runtime (stack sample_runtime ! 2)"
proof -
  have s: "stack sample_runtime = [1, 2, 3, 4]" by (rule sample_stack)
  have b0: "(0 :: int) \<le> sint (0 :: go_int)" "sint (0 :: go_int) \<le> 2 ^ 63 - 3"
    and b1: "(0 :: int) \<le> sint (1 :: go_int)" "sint (1 :: go_int) \<le> 2 ^ 63 - 3"
    and b2: "(0 :: int) \<le> sint (2 :: go_int)" "sint (2 :: go_int) \<le> 2 ^ 63 - 3"
    by simp_all
  from Callers_skips_own_frames [OF b0, where rt = sample_runtime] sample_single
  have "elems (Callers sample_runtime 0)
      = map (frame_at sample_runtime) (take 32 (drop (nat (sint (0 :: go_int)) + 2) (stack sample_runtime)))"
    by blast
  with s have e0: "elems (Callers sample_runtime 0) = [frame_GetACL, frame_main]"
    by (simp add: sample_frame_at)
  from Callers_skips_own_frames [OF b1, where rt = sample_runtime] sample_single
  have "elems (Callers sample_runtime 1)
      = map (frame_at sample_runtime) (take 32 (drop (nat (sint (1 :: go_int)) + 2) (stack sample_runtime)))"
    by blast
  with s have e1: "elems (Callers sample_runtime 1) = [frame_main]"
    by (simp add: sample_frame_at)
  from Callers_skips_own_frames [OF b2, where rt = sample_runtime] s
  have n2: "Callers sample_runtime 2 = NilStack" by simp
  from Callers_skips_own_frames [OF b0, where rt = sample_runtime] sample_single s
  have i0: "elems (Callers sample_runtime 0) ! 0 = frame_at sample_runtime (stack sample_runtime ! 2)"
    by simp
  from e0 Callers_not_empty_slice [of sample_runtime 0] have c0: "Callers sample_runtime 0 = Stack [frame_GetACL, frame_main]"
    by (cases "Callers sample_runtime 0") simp_all
  from e1 have c1: "Callers sample_runtime 1 = Stack [frame_main]"
    by (cases "Callers sample_runtime 1") simp_all
  from c0 c1 n2 i0 show ?thesis by blast
qed

text \<open>
  Claim C4 speaks of every \<open>skip \<ge> 0\<close>. For the largest \<^verbatim>\<open>int\<close>, \<open>2^63 - 1\<close>,
  the sum \<^verbatim>\<open>skip+2\<close> wraps to a negative number, the runtime skips nothing, and
  the CallStack of the sample goroutine starts with the frames of
  \<^verbatim>\<open>runtime.Callers\<close> and of \<open>Callers\<close> themselves, although the stack has no
  entry that many levels up.
\<close>

theorem Callers_skip_wraps:
  "0 \<le> sint (0x7FFFFFFFFFFFFFFF :: go_int)
   \<and> length (stack sample_runtime) \<le> nat (sint (0x7FFFFFFFFFFFFFFF :: go_int)) + 2
   \<and> sint (0x7FFFFFFFFFFFFFFF + 2 :: go_int) = - 0x7FFFFFFFFFFFFFFF
   \<and> Callers sample_runtime 0x7FFFFFFFFFFFFFFF =
       Stack [StructFrame \<lparr>file' = ''/go/src/runtime/extern.go'', line = 211, function' = ''runtime.Callers''\<rparr>,
              StructFrame \<lparr>file' = ''/src/failure/callstack.go'', line = 45,
                function' = ''github.com/oinume/failure.Callers''\<rparr>,
              StructFrame \<lparr>file' = ''/src/app/main.go'', line = 21, function' = ''main.GetACL''\<rparr>,
              StructFrame \<lparr>file' = ''/src/app/main.go'', line = 47, function' = ''main.main''\<rparr>]"
proof -
  have c: "captured sample_runtime 0x7FFFFFFFFFFFFFFF = [1, 2, 3, 4]"
    by (simp add: captured_def sample_runtime_def)
  have r: "resolved sample_runtime [1, 2, 3, 4] =
      [\<lparr>Frame_File = ''/go/src/runtime/extern.go'', Frame_Line = 211, Frame_Function = ''runtime.Callers''\<rparr>,
       \<lparr>Frame_File = ''/src/failure/callstack.go'', Frame_Line = 45,
          Frame_Function = ''github.com/oinume/failure.Callers''\<rparr>,
       \<lparr>Frame_File = ''/src/app/main.go'', Frame_Line = 21, Frame_Function = ''main.GetACL''\<rparr>,
       \<lparr>Frame_File = ''/src/app/main.go'', Frame_Line = 47, Frame_Function = ''main.main''\<rparr>]"
    by (simp add: resolved_def sample_runtime_def sample_symtab_def)
  have d: "length (stack sample_runtime) \<le> nat (sint (0x7FFFFFFFFFFFFFFF :: go_int)) + 2"
    by (simp add: sample_runtime_def)
  from c r have "Callers sample_runtime 0x7FFFFFFFFFFFFFFF =
       Stack [StructFrame \<lparr>file' = ''/go/src/runtime/extern.go'', line = 211, function' = ''runtime.Callers''\<rparr>,
              StructFrame \<lparr>file' = ''/src/failure/callstack.go'', line = 45,
                function' = ''github.com/oinume/failure.Callers''\<rparr>,
              StructFrame \<lparr>file' = ''/src/app/main.go'', line = 21, function' = ''main.GetACL''\<rparr>,
              StructFrame \<lparr>file' = ''/src/app/main.go'', line = 47, function' = ''main.main''\<rparr>]"
    by (simp add: Callers_eq frame_of_def)
  with d show ?thesis by simp
qed

end
